theory Spec2Isabelle
  imports Complex_Main "HOL-Library.List_Lexorder" "HOL-Library.Char_ord" "HOL-Library.Multiset"
begin

section \<open>The wallet service: data model\<close>

text \<open>
  The wallet package (\<^verbatim>\<open>service.go\<close>, \<^verbatim>\<open>endpoints.go\<close> and the HTTP
  transport file) moves money between two accounts kept in two PostgreSQL tables,
  \<^verbatim>\<open>accounts\<close> and \<^verbatim>\<open>payments\<close>, and lists the payments.

  \<^verbatim>\<open>decimal.Decimal\<close> (shopspring) is an arbitrary-precision decimal number
  \<open>coefficient * 10 ^ exponent\<close>; its \<^verbatim>\<open>Add\<close> and \<^verbatim>\<open>Sub\<close> are exact. A
  decimal is modelled by the number it denotes, a rational, so that every result below
  holds for every decimal value.
\<close>

type_synonym decimal = rat

definition Add :: "decimal \<Rightarrow> decimal \<Rightarrow> decimal" where
  "Add d d2 = d + d2"

definition Sub :: "decimal \<Rightarrow> decimal \<Rightarrow> decimal" where
  "Sub d d2 = d - d2"

definition IsPositive :: "decimal \<Rightarrow> bool" where
  "IsPositive d = (0 < d)"

definition IsNegative :: "decimal \<Rightarrow> bool" where
  "IsNegative d = (d < 0)"

subsection \<open>Errors\<close>

text \<open>
  The package declares seven sentinel errors with \<^verbatim>\<open>errors.New\<close>; Go compares them
  by identity. Every other error value (those of the database driver) is
  \<open>StoreError\<close> with its message: it is equal to no sentinel, whatever its message.
\<close>

datatype error =
    ErrAccountNotFound
  | ErrAccountNotSpecified
  | ErrCurrencyMismatch
  | ErrInsufficientBalance
  | ErrInvalidAmount
  | ErrSameAccount
  | ErrMalformedJSON
  | StoreError string

text \<open>\<^verbatim>\<open>err.Error()\<close>: the message given to \<^verbatim>\<open>errors.New\<close>.\<close>

fun Error :: "error \<Rightarrow> string" where
  "Error ErrAccountNotFound = ''account(s) not found''"
| "Error ErrAccountNotSpecified = ''two accounts must be specified''"
| "Error ErrCurrencyMismatch = ''accounts have different currencies''"
| "Error ErrInsufficientBalance = ''insufficient balance''"
| "Error ErrInvalidAmount = ''invalid amount''"
| "Error ErrSameAccount = ''cannot send a payment to the same account''"
| "Error ErrMalformedJSON = ''unable to parse request''"
| "Error (StoreError m) = m"

subsection \<open>The HTTP error encoder\<close>

text \<open>The status codes of \<^verbatim>\<open>net/http\<close> that \<^verbatim>\<open>codeFrom\<close> returns.\<close>

definition StatusBadRequest :: int where
  "StatusBadRequest = 400"

definition StatusForbidden :: int where
  "StatusForbidden = 403"

definition StatusNotFound :: int where
  "StatusNotFound = 404"

definition StatusInternalServerError :: int where
  "StatusInternalServerError = 500"

text \<open>\<^verbatim>\<open>codeFrom\<close>: a switch on the error's identity, with a default branch.\<close>

fun codeFrom :: "error \<Rightarrow> int" where
  "codeFrom ErrCurrencyMismatch = StatusForbidden"
| "codeFrom ErrInsufficientBalance = StatusForbidden"
| "codeFrom ErrInvalidAmount = StatusForbidden"
| "codeFrom ErrSameAccount = StatusForbidden"
| "codeFrom ErrAccountNotFound = StatusNotFound"
| "codeFrom ErrMalformedJSON = StatusBadRequest"
| "codeFrom ErrAccountNotSpecified = StatusBadRequest"
| "codeFrom (StoreError m) = StatusInternalServerError"

text \<open>
  \<^verbatim>\<open>encodeError\<close> panics on a nil error (\<open>Inl\<close> with the panic's text); otherwise it
  writes the status code and the JSON object \<^verbatim>\<open>{"error": msg}\<close>, here the code and
  the object's one member.
\<close>

definition encodeError :: "error option \<Rightarrow> string + (int \<times> (string \<times> string) list)" where
  "encodeError err =
     (case err of
        None \<Rightarrow> Inl ''encodeError with nil error''
      | Some e \<Rightarrow>
          (let code = codeFrom e;
               msg = Error e;
               msg = (if code = StatusInternalServerError then ''internal server error'' else msg)
           in Inr (code, [(''error'', msg)])))"

section \<open>The store\<close>

text \<open>
  The two tables of \<^verbatim>\<open>init-db.sh\<close>, each a list of rows, and the sequence behind
  the \<^verbatim>\<open>SERIAL\<close> column \<^verbatim>\<open>payments.id\<close>. \<^verbatim>\<open>Account\<close> and \<^verbatim>\<open>Payment\<close> are the
  structs of \<^verbatim>\<open>service.go\<close>; a table row has the same columns. Both tables
  declare \<^verbatim>\<open>PRIMARY KEY(id)\<close>: the results that read "the" row of an account assume
  that the account identifiers of the table are distinct.
\<close>

record Account =
  ID :: string
  Balance :: decimal
  Currency :: string

record Payment =
  ID :: int
  FromAccountID :: string
  ToAccountID :: string
  Amount :: decimal

record db =
  accounts :: "Account list"
  payments :: "Payment list"
  payments_id_seq :: int

text \<open>
  Every call on the pool or on the transaction may fail with an error of the driver. Which
  calls fail is an input of the model: \<open>Some m\<close> makes the call fail with message \<open>m\<close>.
  A query can fail in two ways. With \<open>query_err\<close> the call \<^verbatim>\<open>Query\<close> itself returns the
  error. With \<open>rows_err = Some (k, m)\<close> the call returns nil and the query fails while
  its rows are read: \<^verbatim>\<open>rows.Next()\<close> is true at most \<open>k\<close> times and then false, and
  the error \<open>m\<close> is what \<^verbatim>\<open>rows.Err()\<close> returns.
  \<open>scan_err = Some (k, m)\<close> makes \<^verbatim>\<open>rows.Scan\<close> fail on row \<open>k\<close> (counted from 0).
  The failures are independent of each other, so there are also runs that the store does
  not produce, such as writes that succeed after a read that failed; what holds of every
  run of the model holds of the runs of the store.
\<close>

record faults =
  begin_err :: "string option"
  query_err :: "string option"
  rows_err :: "(nat \<times> string) option"
  scan_err :: "(nat \<times> string) option"
  update_from_err :: "string option"
  update_to_err :: "string option"
  insert_err :: "string option"
  commit_err :: "string option"

definition no_faults :: faults where
  "no_faults = \<lparr>begin_err = None, query_err = None, rows_err = None, scan_err = None,
     update_from_err = None,
     update_to_err = None, insert_err = None, commit_err = None\<rparr>"

text \<open>
  \<^verbatim>\<open>pgx.Rows\<close>, the result of a query: the rows that the loop over \<^verbatim>\<open>rows.Next()\<close>
  gets, and the value of \<^verbatim>\<open>rows.Err()\<close> after the loop.
\<close>

record 'a Rows =
  delivered :: "'a list"
  rows_Err :: "string option"

definition open_rows :: "(nat \<times> string) option \<Rightarrow> 'a list \<Rightarrow> 'a Rows" where
  "open_rows re xs =
     (case re of
        None \<Rightarrow> \<lparr>delivered = xs, rows_Err = None\<rparr>
      | Some (k, m) \<Rightarrow> \<lparr>delivered = take k xs, rows_Err = Some m\<rparr>)"

text \<open>The calls a \<^verbatim>\<open>SendPayment\<close> makes on the store, in the order it makes them.\<close>

datatype call =
    CallBegin
  | CallQueryForUpdate string string
  | CallUpdateBalance decimal string
  | CallInsertPayment string string decimal
  | CallCommit
  | CallRollback

text \<open>
  A transaction: \<open>committed\<close> is the store as every other connection sees it and as a
  rollback leaves it, \<open>pending\<close> is the store as the transaction sees it, with its own
  writes. A sequence is not transactional in PostgreSQL: \<^verbatim>\<open>nextval\<close> advances it at
  once and a rollback does not take it back.
\<close>

record tx =
  committed :: db
  pending :: db
  closed :: bool
  calls :: "call list"

definition Begin :: "faults \<Rightarrow> db \<Rightarrow> error + tx" where
  "Begin flt s =
     (case begin_err flt of
        Some m \<Rightarrow> Inl (StoreError m)
      | None \<Rightarrow> Inr \<lparr>committed = s, pending = s, closed = False, calls = [CallBegin]\<rparr>)"

text \<open>
  \<^verbatim>\<open>SELECT id, balance, currency FROM accounts WHERE id = $1 OR id = $2 ORDER BY id FOR UPDATE\<close>
  with \<^verbatim>\<open>ORDER BY\<close> as the lexicographic order of the bytes.
\<close>

definition QueryForUpdate :: "faults \<Rightarrow> tx \<Rightarrow> string \<Rightarrow> string \<Rightarrow> (error + Account Rows) \<times> tx" where
  "QueryForUpdate flt t a b =
     (let t' = t\<lparr>calls := calls t @ [CallQueryForUpdate a b]\<rparr>
      in case query_err flt of
           Some m \<Rightarrow> (Inl (StoreError m), t')
         | None \<Rightarrow>
             (Inr (open_rows (rows_err flt)
                    (sort_key Account.ID
                      (filter (\<lambda>r. Account.ID r = a \<or> Account.ID r = b) (accounts (pending t'))))),
              t'))"

text \<open>\<^verbatim>\<open>UPDATE accounts SET balance = $1 WHERE id = $2\<close>\<close>

definition ExecUpdateBalance :: "string option \<Rightarrow> tx \<Rightarrow> decimal \<Rightarrow> string \<Rightarrow> error option \<times> tx" where
  "ExecUpdateBalance f t balance aid =
     (let t' = t\<lparr>calls := calls t @ [CallUpdateBalance balance aid]\<rparr>
      in case f of
           Some m \<Rightarrow> (Some (StoreError m), t')
         | None \<Rightarrow>
             (None,
              t'\<lparr>pending := (pending t')\<lparr>accounts :=
                    map (\<lambda>r. if Account.ID r = aid then r\<lparr>Balance := balance\<rparr> else r)
                      (accounts (pending t'))\<rparr>\<rparr>))"

text \<open>
  \<^verbatim>\<open>INSERT INTO payments (from_account_id, to_account_id, amount) VALUES ($1, $2, $3)\<close>:
  the identifier is the next value of the sequence, and the primary key refuses an
  identifier the table already holds.
\<close>

definition ExecInsertPayment :: "string option \<Rightarrow> tx \<Rightarrow> string \<Rightarrow> string \<Rightarrow> decimal \<Rightarrow> error option \<times> tx" where
  "ExecInsertPayment f t src dst amount =
     (let t' = t\<lparr>calls := calls t @ [CallInsertPayment src dst amount]\<rparr>
      in case f of
           Some m \<Rightarrow> (Some (StoreError m), t')
         | None \<Rightarrow>
             (let nid = payments_id_seq (pending t') + 1;
                  t'' = t'\<lparr>committed := (committed t')\<lparr>payments_id_seq := nid\<rparr>,
                           pending := (pending t')\<lparr>payments_id_seq := nid\<rparr>\<rparr>
              in if nid \<in> Payment.ID ` set (payments (pending t''))
                 then (Some (StoreError ''duplicate key value violates unique constraint''), t'')
                 else (None,
                       t''\<lparr>pending := (pending t'')\<lparr>payments := payments (pending t'') @
                              [\<lparr>Payment.ID = nid, FromAccountID = src, ToAccountID = dst,
                                Payment.Amount = amount\<rparr>]\<rparr>\<rparr>)))"

text \<open>
  \<^verbatim>\<open>tx.Commit\<close> installs the pending store; a commit that fails installs nothing. Either
  way the transaction is closed afterwards.
\<close>

definition Commit :: "string option \<Rightarrow> tx \<Rightarrow> error option \<times> tx" where
  "Commit f t =
     (let t' = t\<lparr>calls := calls t @ [CallCommit], closed := True\<rparr>
      in case f of
           Some m \<Rightarrow> (Some (StoreError m), t'\<lparr>pending := committed t'\<rparr>)
         | None \<Rightarrow> (None, t'\<lparr>committed := pending t'\<rparr>))"

text \<open>
  \<^verbatim>\<open>tx.Rollback\<close>, which \<^verbatim>\<open>SendPayment\<close> defers: it discards the pending writes, and
  does nothing to a transaction that is closed already.
\<close>

definition Rollback :: "tx \<Rightarrow> tx" where
  "Rollback t =
     (if closed t then t\<lparr>calls := calls t @ [CallRollback]\<rparr>
      else t\<lparr>pending := committed t, closed := True, calls := calls t @ [CallRollback]\<rparr>)"

section \<open>The service\<close>

definition Scan :: "(nat \<times> string) option \<Rightarrow> nat \<Rightarrow> error option" where
  "Scan sf i = (case sf of None \<Rightarrow> None | Some (k, m) \<Rightarrow> if k = i then Some (StoreError m) else None)"

text \<open>
  \<^verbatim>\<open>getAccounts\<close>: the loop over \<^verbatim>\<open>rows.Next()\<close>, with the index of the row and the
  slice built so far. After the loop it returns the slice and nil: it does not read
  \<^verbatim>\<open>rows.Err()\<close>.
\<close>

fun getAccounts_loop :: "(nat \<times> string) option \<Rightarrow> nat \<Rightarrow> Account list \<Rightarrow> Account list \<Rightarrow> error + Account list" where
  "getAccounts_loop sf i [] accs = Inr accs"
| "getAccounts_loop sf i (row # rows) accs =
     (case Scan sf i of
        Some e \<Rightarrow> Inl e
      | None \<Rightarrow>
          getAccounts_loop sf (Suc i) rows
            (accs @ [\<lparr>Account.ID = Account.ID row, Balance = Balance row, Currency = Currency row\<rparr>]))"

definition getAccounts :: "(nat \<times> string) option \<Rightarrow> Account Rows \<Rightarrow> error + Account list" where
  "getAccounts sf rows = getAccounts_loop sf 0 (delivered rows) []"

text \<open>
  The body of \<^verbatim>\<open>SendPayment\<close> after \<^verbatim>\<open>defer tx.Rollback(ctx)\<close>: it returns the error
  (\<open>None\<close> is Go's nil) and the transaction as it leaves it.
\<close>

definition SendPayment_tx :: "faults \<Rightarrow> tx \<Rightarrow> string \<Rightarrow> string \<Rightarrow> decimal \<Rightarrow> error option \<times> tx" where
  "SendPayment_tx flt t0 fromAccountID toAccountID amount =
     (case QueryForUpdate flt t0 fromAccountID toAccountID of
        (Inl e, t1) \<Rightarrow> (Some e, t1)
      | (Inr rows, t1) \<Rightarrow>
          (case getAccounts (scan_err flt) rows of
             Inl e \<Rightarrow> (Some e, t1)
           | Inr accs \<Rightarrow>
               (let accountsByID = fold (\<lambda>account m. m(Account.ID account \<mapsto> account)) accs Map.empty
                in case (accountsByID fromAccountID, accountsByID toAccountID) of
                     (Some fromAccount, Some toAccount) \<Rightarrow>
                       if Currency fromAccount \<noteq> Currency toAccount then (Some ErrCurrencyMismatch, t1)
                       else
                         (let fromAccount' = fromAccount\<lparr>Balance := Sub (Balance fromAccount) amount\<rparr>;
                              toAccount' = toAccount\<lparr>Balance := Add (Balance toAccount) amount\<rparr>
                          in if IsNegative (Balance fromAccount') then (Some ErrInsufficientBalance, t1)
                             else
                               (case ExecUpdateBalance (update_from_err flt) t1
                                       (Balance fromAccount') (Account.ID fromAccount') of
                                  (Some e, t2) \<Rightarrow> (Some e, t2)
                                | (None, t2) \<Rightarrow>
                                    (case ExecUpdateBalance (update_to_err flt) t2
                                            (Balance toAccount') (Account.ID toAccount') of
                                       (Some e, t3) \<Rightarrow> (Some e, t3)
                                     | (None, t3) \<Rightarrow>
                                         (case ExecInsertPayment (insert_err flt) t3
                                                 (Account.ID fromAccount') (Account.ID toAccount') amount of
                                            (Some e, t4) \<Rightarrow> (Some e, t4)
                                          | (None, t4) \<Rightarrow> Commit (commit_err flt) t4))))
                   | _ \<Rightarrow> (Some ErrAccountNotFound, t1))))"

text \<open>
  \<^verbatim>\<open>SendPayment\<close>: the error it returns, the store it leaves and the calls it made on
  the store.
\<close>

definition SendPayment :: "faults \<Rightarrow> db \<Rightarrow> string \<Rightarrow> string \<Rightarrow> decimal \<Rightarrow> error option \<times> db \<times> call list" where
  "SendPayment flt s fromAccountID toAccountID amount =
     (if fromAccountID = [] \<or> toAccountID = [] then (Some ErrAccountNotSpecified, s, [])
      else if fromAccountID = toAccountID then (Some ErrSameAccount, s, [])
      else if \<not> IsPositive amount then (Some ErrInvalidAmount, s, [])
      else
        (case Begin flt s of
           Inl e \<Rightarrow> (Some e, s, [CallBegin])
         | Inr t0 \<Rightarrow>
             (case SendPayment_tx flt t0 fromAccountID toAccountID amount of
                (err, t) \<Rightarrow> (err, committed (Rollback t), calls (Rollback t)))))"

text \<open>
  \<^verbatim>\<open>ListPayments\<close>:
  \<^verbatim>\<open>SELECT id, from_account_id, to_account_id, amount FROM payments ORDER BY id\<close>
  and the loop over its rows. It returns the slice (nil is the empty list) and the error.
  After the loop it returns the slice and nil: it does not read \<^verbatim>\<open>rows.Err()\<close>.
\<close>

fun ListPayments_loop :: "(nat \<times> string) option \<Rightarrow> nat \<Rightarrow> Payment list \<Rightarrow> Payment list \<Rightarrow> error + Payment list" where
  "ListPayments_loop sf i [] ps = Inr ps"
| "ListPayments_loop sf i (row # rows) ps =
     (case Scan sf i of
        Some e \<Rightarrow> Inl e
      | None \<Rightarrow>
          ListPayments_loop sf (Suc i) rows
            (ps @ [\<lparr>Payment.ID = Payment.ID row, FromAccountID = FromAccountID row,
                    ToAccountID = ToAccountID row, Payment.Amount = Payment.Amount row\<rparr>]))"

definition ListPayments :: "faults \<Rightarrow> db \<Rightarrow> Payment list \<times> error option" where
  "ListPayments flt s =
     (case query_err flt of
        Some m \<Rightarrow> ([], Some (StoreError m))
      | None \<Rightarrow>
          (case ListPayments_loop (scan_err flt) 0
                  (delivered (open_rows (rows_err flt) (sort_key Payment.ID (payments s)))) [] of
             Inl e \<Rightarrow> ([], Some e)
           | Inr ps \<Rightarrow> (ps, None)))"

section \<open>The payments endpoint\<close>

record paymentItem =
  Account :: string
  Amount :: decimal
  FromAccount :: string
  ToAccount :: string
  Direction :: string

record listPaymentsResponse =
  Payments :: "paymentItem list"
  Err :: "error option"

text \<open>
  \<^verbatim>\<open>makeListPaymentsEndpoint\<close>: \<open>svc\<close> is the \<^verbatim>\<open>ListPayments\<close> of the service it is
  given. A field the struct literal leaves out has Go's zero value, the empty string.
\<close>

definition makeListPaymentsEndpoint :: "('c \<Rightarrow> Payment list \<times> error option) \<Rightarrow> 'c \<Rightarrow> listPaymentsResponse \<times> error option" where
  "makeListPaymentsEndpoint svc ctx =
     (case svc ctx of
        (pays, err) \<Rightarrow>
          (let items =
                 fold (\<lambda>payment items.
                         (items @ [\<lparr>paymentItem.Account = FromAccountID payment,
                                    paymentItem.Amount = Payment.Amount payment,
                                    FromAccount = [],
                                    ToAccount = ToAccountID payment,
                                    Direction = ''outgoing''\<rparr>])
                           @ [\<lparr>paymentItem.Account = ToAccountID payment,
                                paymentItem.Amount = Payment.Amount payment,
                                FromAccount = FromAccountID payment,
                                ToAccount = [],
                                Direction = ''incoming''\<rparr>])
                   pays []
           in (\<lparr>Payments = items, Err = err\<rparr>, None)))"

text \<open>
  The JSON object of a \<^verbatim>\<open>paymentItem\<close>, member by member in the order of the struct's
  fields: the tags \<^verbatim>\<open>from_account,omitempty\<close> and \<^verbatim>\<open>to_account,omitempty\<close> leave out a
  member whose string is empty.
\<close>

datatype json = JString string | JDecimal decimal

definition paymentItem_json :: "paymentItem \<Rightarrow> (string \<times> json) list" where
  "paymentItem_json it =
     [(''account'', JString (paymentItem.Account it)), (''amount'', JDecimal (paymentItem.Amount it))]
     @ (if FromAccount it = [] then [] else [(''from_account'', JString (FromAccount it))])
     @ (if ToAccount it = [] then [] else [(''to_account'', JString (ToAccount it))])
     @ [(''direction'', JString (Direction it))]"

text \<open>The accounts of \<^verbatim>\<open>init-db.sh\<close>, used as the concrete store below.\<close>

definition init_db :: db where
  "init_db = \<lparr>accounts =
       [\<lparr>Account.ID = ''bob123'', Balance = 100, Currency = ''USD''\<rparr>,
        \<lparr>Account.ID = ''alice456'', Balance = 1 / 100, Currency = ''USD''\<rparr>,
        \<lparr>Account.ID = ''eve789'', Balance = 5000, Currency = ''RUB''\<rparr>],
     payments = [], payments_id_seq = 0\<rparr>"

text \<open>The store after the two payments of the listing test: 10 and 0.5 from bob123 to alice456.\<close>

definition two_payments_db :: db where
  "two_payments_db =
     \<lparr>accounts =
        [\<lparr>Account.ID = ''bob123'', Balance = 179 / 2, Currency = ''USD''\<rparr>,
         \<lparr>Account.ID = ''alice456'', Balance = 1051 / 100, Currency = ''USD''\<rparr>,
         \<lparr>Account.ID = ''eve789'', Balance = 5000, Currency = ''RUB''\<rparr>],
      payments =
        [\<lparr>Payment.ID = 1, FromAccountID = ''bob123'', ToAccountID = ''alice456'',
          Payment.Amount = 10\<rparr>,
         \<lparr>Payment.ID = 2, FromAccountID = ''bob123'', ToAccountID = ''alice456'',
          Payment.Amount = 1 / 2\<rparr>],
      payments_id_seq = 2\<rparr>"

section \<open>Observations used to state the properties\<close>

text \<open>
  The row of an account in the \<^verbatim>\<open>accounts\<close> table, its balance and its currency; under
  the primary key there is at most one such row.
\<close>

definition lookup_account :: "db \<Rightarrow> string \<Rightarrow> Account option" where
  "lookup_account s k = find (\<lambda>r. Account.ID r = k) (accounts s)"

definition balance_of :: "db \<Rightarrow> string \<Rightarrow> decimal option" where
  "balance_of s k = map_option Balance (lookup_account s k)"

definition currency_of :: "db \<Rightarrow> string \<Rightarrow> string option" where
  "currency_of s k = map_option Currency (lookup_account s k)"

text \<open>
  The map \<^verbatim>\<open>accountsByID\<close> that \<^verbatim>\<open>SendPayment\<close> builds from the rows of its query,
  and the effect of one \<^verbatim>\<open>UPDATE accounts SET balance\<close> on a row.
\<close>

definition fetched :: "faults \<Rightarrow> db \<Rightarrow> string \<Rightarrow> string \<Rightarrow> string \<rightharpoonup> Account" where
  "fetched flt s a b =
     fold (\<lambda>account m. m(Account.ID account \<mapsto> account))
       (delivered (open_rows (rows_err flt)
          (sort_key Account.ID (filter (\<lambda>r. Account.ID r = a \<or> Account.ID r = b) (accounts s)))))
       Map.empty"

definition set_balance :: "string \<Rightarrow> decimal \<Rightarrow> Account \<Rightarrow> Account" where
  "set_balance k b r = (if Account.ID r = k then r\<lparr>Balance := b\<rparr> else r)"

text \<open>
  No account has a negative balance; and the store after a sequence of \<^verbatim>\<open>SendPayment\<close>
  calls, each with its own faults, one after the other.
\<close>

definition nonneg :: "db \<Rightarrow> bool" where
  "nonneg s = (\<forall>r \<in> set (accounts s). \<not> IsNegative (Balance r))"

fun run :: "db \<Rightarrow> (faults \<times> string \<times> string \<times> decimal) list \<Rightarrow> db" where
  "run s [] = s"
| "run s ((flt, src, dst, amount) # reqs) = run (fst (snd (SendPayment flt s src dst amount))) reqs"

text \<open>
  The payment identifiers grow along the table and none is beyond the sequence: the state
  of a \<^verbatim>\<open>SERIAL\<close> column that only \<^verbatim>\<open>INSERT\<close>s without an explicit identifier have
  filled.
\<close>

definition ids_ascending :: "db \<Rightarrow> bool" where
  "ids_ascending s =
     (sorted_wrt (<) (map Payment.ID (payments s))
      \<and> (\<forall>p \<in> set (payments s). Payment.ID p \<le> payments_id_seq s))"

section \<open>The error-to-HTTP mapping\<close>

lemmas status_defs =
  StatusBadRequest_def StatusForbidden_def StatusNotFound_def StatusInternalServerError_def

text \<open>
  C8. The mapping from errors to HTTP responses is total: \<open>ErrMalformedJSON\<close> and
  \<open>ErrAccountNotSpecified\<close> give 400; \<open>ErrSameAccount\<close>, \<open>ErrInvalidAmount\<close>,
  \<open>ErrCurrencyMismatch\<close> and \<open>ErrInsufficientBalance\<close> give 403; \<open>ErrAccountNotFound\<close>
  gives 404; every other error gives 500 and its message is replaced by
  "internal server error"; every response that is not a 500 carries the error's own
  message.
\<close>

theorem C8_error_to_http_total:
  "codeFrom ErrMalformedJSON = 400 \<and> codeFrom ErrAccountNotSpecified = 400
   \<and> codeFrom ErrSameAccount = 403 \<and> codeFrom ErrInvalidAmount = 403
   \<and> codeFrom ErrCurrencyMismatch = 403 \<and> codeFrom ErrInsufficientBalance = 403
   \<and> codeFrom ErrAccountNotFound = 404
   \<and> (\<forall>e. e \<notin> {ErrMalformedJSON, ErrAccountNotSpecified, ErrSameAccount, ErrInvalidAmount,
               ErrCurrencyMismatch, ErrInsufficientBalance, ErrAccountNotFound}
         \<longrightarrow> codeFrom e = 500
             \<and> encodeError (Some e) = Inr (500, [(''error'', ''internal server error'')]))
   \<and> (\<forall>e. codeFrom e \<noteq> 500 \<longrightarrow> encodeError (Some e) = Inr (codeFrom e, [(''error'', Error e)]))
   \<and> (\<forall>e. \<exists>c body. encodeError (Some e) = Inr (c, body) \<and> c \<in> {400, 403, 404, 500})"
proof -
  have other: "codeFrom e = 500
      \<and> encodeError (Some e) = Inr (500, [(''error'', ''internal server error'')])"
    if "e \<notin> {ErrMalformedJSON, ErrAccountNotSpecified, ErrSameAccount, ErrInvalidAmount,
              ErrCurrencyMismatch, ErrInsufficientBalance, ErrAccountNotFound}" for e
    using that by (cases e) (simp_all add: encodeError_def status_defs)
  have own: "encodeError (Some e) = Inr (codeFrom e, [(''error'', Error e)])"
    if "codeFrom e \<noteq> 500" for e
    using that by (cases e) (simp_all add: encodeError_def status_defs)
  have total: "\<exists>c body. encodeError (Some e) = Inr (c, body) \<and> c \<in> {400, 403, 404, 500}" for e
    by (cases e) (simp_all add: encodeError_def status_defs)
  show ?thesis
    using other own total by (simp add: status_defs)
qed

theorem C8_error_to_http_total_witness:
  "StoreError ''conn closed'' \<notin> {ErrMalformedJSON, ErrAccountNotSpecified, ErrSameAccount,
       ErrInvalidAmount, ErrCurrencyMismatch, ErrInsufficientBalance, ErrAccountNotFound}
   \<and> codeFrom (StoreError ''conn closed'') = 500
   \<and> encodeError (Some (StoreError ''conn closed''))
       = Inr (500, [(''error'', ''internal server error'')])
   \<and> codeFrom ErrAccountNotFound \<noteq> 500
   \<and> encodeError (Some ErrAccountNotFound) = Inr (404, [(''error'', ''account(s) not found'')])"
proof -
  have a: "StoreError ''conn closed'' \<notin> {ErrMalformedJSON, ErrAccountNotSpecified,
       ErrSameAccount, ErrInvalidAmount, ErrCurrencyMismatch, ErrInsufficientBalance,
       ErrAccountNotFound}"
    by simp
  have b: "codeFrom ErrAccountNotFound \<noteq> 500"
    by (simp add: status_defs)
  from C8_error_to_http_total a b show ?thesis
    by (metis Error.simps(1) codeFrom.simps(5) StatusNotFound_def)
qed


section \<open>Reading the rows and building the map of accounts\<close>


lemma Account_eta:
  "\<lparr>Account.ID = Account.ID (a::Account), Balance = Balance a, Currency = Currency a\<rparr> = a"
  by (cases a) simp

lemma Payment_eta:
  "\<lparr>Payment.ID = Payment.ID (p::Payment), FromAccountID = FromAccountID p,
     ToAccountID = ToAccountID p, Payment.Amount = Payment.Amount p\<rparr> = p"
  by (cases p) simp

lemma getAccounts_loop_cases:
  "getAccounts_loop sf i rows accs = Inr (accs @ rows) \<or> (\<exists>e. getAccounts_loop sf i rows accs = Inl e)"
proof (induction rows arbitrary: i accs)
  case Nil
  then show ?case by simp
next
  case (Cons row rows)
  show ?case
    using Cons.IH [of "Suc i" "accs @ [row]"]
    by (cases "Scan sf i") (auto simp: Account_eta)
qed

lemma getAccounts_loop_None: "getAccounts_loop None i rows accs = Inr (accs @ rows)"
  by (induction rows arbitrary: i accs) (auto simp: Scan_def Account_eta)

lemma delivered_complete: "delivered (open_rows None xs) = xs"
  by (simp add: open_rows_def)

lemma delivered_subset: "set (delivered (open_rows re xs)) \<subseteq> set xs"
  by (auto simp: open_rows_def dest: in_set_takeD split: option.splits)

lemma delivered_take: "\<exists>k. delivered (open_rows re xs) = take k xs"
proof (cases re)
  case None
  then have "delivered (open_rows re xs) = take (length xs) xs"
    by (simp add: open_rows_def)
  then show ?thesis ..
next
  case (Some km)
  then show ?thesis
    by (cases km) (auto simp: open_rows_def)
qed

lemma getAccounts_Inr: "getAccounts sf rows = Inr accs \<Longrightarrow> accs = delivered rows"
  using getAccounts_loop_cases [of sf 0 "delivered rows" "[]"] by (auto simp: getAccounts_def)

lemma getAccounts_loop_Inl: "getAccounts_loop sf i rows accs = Inl e \<Longrightarrow> \<exists>m. e = StoreError m"
  by (induction rows arbitrary: i accs) (auto simp: Scan_def split: option.splits if_splits)

lemma getAccounts_Inl: "getAccounts sf rows = Inl e \<Longrightarrow> \<exists>m. e = StoreError m"
  unfolding getAccounts_def by (rule getAccounts_loop_Inl)

lemma byID_None:
  "(fold (\<lambda>account m. m(Account.ID account \<mapsto> account)) xs m) k = None
     \<longleftrightarrow> m k = None \<and> k \<notin> Account.ID ` set xs"
  by (induction xs arbitrary: m) auto

lemma byID_Some:
  "(fold (\<lambda>account m. m(Account.ID account \<mapsto> account)) xs m) k = Some a
     \<Longrightarrow> (a \<in> set xs \<and> Account.ID a = k) \<or> m k = Some a"
proof (induction xs arbitrary: m)
  case Nil
  then show ?case by simp
next
  case (Cons x xs)
  from Cons.prems have "(fold (\<lambda>account m. m(Account.ID account \<mapsto> account)) xs (m(Account.ID x \<mapsto> x))) k = Some a"
    by (simp del: fun_upd_apply)
  from Cons.IH [OF this] show ?case
    by (auto split: if_splits)
qed

lemma byID_distinct:
  "distinct (map Account.ID xs) \<Longrightarrow> a \<in> set xs
     \<Longrightarrow> (fold (\<lambda>account m. m(Account.ID account \<mapsto> account)) xs m) (Account.ID a) = Some a"
proof (induction xs arbitrary: m)
  case Nil
  then show ?case by simp
next
  case (Cons x xs)
  show ?case
  proof (cases "a \<in> set xs")
    case True
    with Cons show ?thesis by simp
  next
    case False
    with Cons.prems have ax: "a = x" and fresh: "Account.ID x \<notin> Account.ID ` set xs" by auto
    let ?r = "(fold (\<lambda>account m. m(Account.ID account \<mapsto> account)) xs (m(Account.ID x \<mapsto> x))) (Account.ID x)"
    have "?r \<noteq> None" by (simp add: byID_None)
    then obtain b where b: "?r = Some b" by blast
    from byID_Some [OF b] fresh have "b = x" by (auto simp: image_iff)
    with b ax show ?thesis by (simp del: fun_upd_apply)
  qed
qed

lemma find_map_ID:
  "(\<And>r. Account.ID (g r) = Account.ID r) \<Longrightarrow>
    find (\<lambda>r. Account.ID r = k) (map g xs) = map_option g (find (\<lambda>r. Account.ID r = k) xs)"
  by (induction xs) auto

lemma distinct_rows:
  assumes "distinct (map Account.ID xs)"
  shows "distinct (map Account.ID (sort_key Account.ID (filter P xs)))"
proof -
  from assms have "distinct xs" and "inj_on Account.ID (set xs)"
    by (auto simp: distinct_map)
  then have "distinct (filter P xs)" and "inj_on Account.ID (set (filter P xs))"
    by (auto intro: inj_on_subset)
  then show ?thesis
    by (simp add: distinct_map)
qed

lemma find_distinct:
  "distinct (map Account.ID xs) \<Longrightarrow> a \<in> set xs \<Longrightarrow> find (\<lambda>r. Account.ID r = Account.ID a) xs = Some a"
  by (induction xs) (auto simp: image_iff)


lemma committed_Rollback: "committed (Rollback t) = committed t"
  by (simp add: Rollback_def)

lemma tx_failure:
  "SendPayment_tx flt t0 src dst amount = (Some e, t) \<Longrightarrow>
     accounts (committed t) = accounts (committed t0) \<and> payments (committed t) = payments (committed t0)"
  unfolding SendPayment_tx_def QueryForUpdate_def ExecUpdateBalance_def ExecInsertPayment_def Commit_def
  by (auto simp: Let_def split: option.splits sum.splits if_splits prod.splits)

lemma fetched_ID: "fetched flt s a b k = Some r \<Longrightarrow> Account.ID r = k \<and> r \<in> set (accounts s)"
  unfolding fetched_def using delivered_subset by (fastforce dest: byID_Some)

lemma fetched_absent: "k \<notin> Account.ID ` set (accounts s) \<Longrightarrow> fetched flt s a b k = None"
  by (cases "fetched flt s a b k") (auto dest: fetched_ID)

lemma fetched_None:
  "rows_err flt = None \<Longrightarrow> k = a \<or> k = b \<Longrightarrow>
     fetched flt s a b k = None \<longleftrightarrow> k \<notin> Account.ID ` set (accounts s)"
  unfolding fetched_def by (auto simp: byID_None delivered_complete)

lemma fetched_is_row:
  assumes "distinct (map Account.ID (accounts s))" and "fetched flt s a b k = Some r"
  shows "lookup_account s k = Some r"
proof -
  from fetched_ID [OF assms(2)] have "Account.ID r = k" "r \<in> set (accounts s)"
    by simp_all
  with find_distinct [OF assms(1), of r] show ?thesis
    by (simp add: lookup_account_def)
qed

lemma fetched_lookup:
  assumes "distinct (map Account.ID (accounts s))" and "k = a \<or> k = b" and "rows_err flt = None"
  shows "fetched flt s a b k = lookup_account s k"
proof (cases "fetched flt s a b k")
  case None
  with assms(2,3) have "k \<notin> Account.ID ` set (accounts s)"
    by (simp add: fetched_None)
  then have "lookup_account s k = None"
    by (auto simp: lookup_account_def find_None_iff)
  with None show ?thesis by simp
next
  case (Some r)
  with fetched_is_row [OF assms(1) Some] show ?thesis by simp
qed

lemma tx_success:
  assumes "SendPayment_tx flt t0 src dst amount = (None, t)"
  shows "\<exists>fa ta. fetched flt (pending t0) src dst src = Some fa \<and> fetched flt (pending t0) src dst dst = Some ta
           \<and> Currency fa = Currency ta \<and> \<not> Balance fa - amount < 0
           \<and> accounts (pending t) = map (set_balance (Account.ID ta) (Balance ta + amount))
                 (map (set_balance (Account.ID fa) (Balance fa - amount)) (accounts (pending t0)))
           \<and> payments (pending t) = payments (pending t0) @
                 [\<lparr>Payment.ID = payments_id_seq (pending t0) + 1, FromAccountID = Account.ID fa,
                   ToAccountID = Account.ID ta, Payment.Amount = amount\<rparr>]
           \<and> payments_id_seq (pending t) = payments_id_seq (pending t0) + 1
           \<and> committed t = pending t \<and> closed t
           \<and> calls t = calls t0 @ [CallQueryForUpdate src dst,
                 CallUpdateBalance (Balance fa - amount) (Account.ID fa),
                 CallUpdateBalance (Balance ta + amount) (Account.ID ta),
                 CallInsertPayment (Account.ID fa) (Account.ID ta) amount, CallCommit]"
  using assms
  unfolding SendPayment_tx_def QueryForUpdate_def ExecUpdateBalance_def ExecInsertPayment_def Commit_def
    fetched_def set_balance_def [abs_def]
  by (auto simp: Let_def Sub_def Add_def IsNegative_def dest!: getAccounts_Inr
      split: option.splits sum.splits if_splits prod.splits)

lemma SendPayment_failure:
  assumes "SendPayment flt s src dst amount = (Some e, s', cs)"
  shows "accounts s' = accounts s \<and> payments s' = payments s"
proof (cases "src = [] \<or> dst = [] \<or> src = dst \<or> \<not> IsPositive amount \<or> begin_err flt \<noteq> None")
  case True
  with assms show ?thesis
    by (auto simp: SendPayment_def Begin_def split: if_splits)
next
  case False
  let ?t0 = "\<lparr>committed = s, pending = s, closed = False, calls = [CallBegin]\<rparr>"
  obtain r t where rt: "SendPayment_tx flt ?t0 src dst amount = (r, t)"
    by (cases "SendPayment_tx flt ?t0 src dst amount")
  with False assms have "r = Some e" and "s' = committed t"
    by (auto simp: SendPayment_def Begin_def committed_Rollback)
  with rt tx_failure [of flt ?t0 src dst amount e t] show ?thesis
    by simp
qed

lemma SendPayment_success:
  assumes "SendPayment flt s src dst amount = (None, s', cs)"
  shows "src \<noteq> [] \<and> dst \<noteq> [] \<and> src \<noteq> dst \<and> 0 < amount
     \<and> (\<exists>fa ta. fetched flt s src dst src = Some fa \<and> fetched flt s src dst dst = Some ta
           \<and> Currency fa = Currency ta \<and> \<not> Balance fa - amount < 0
           \<and> accounts s' = map (set_balance dst (Balance ta + amount))
                 (map (set_balance src (Balance fa - amount)) (accounts s))
           \<and> payments s' = payments s @
                 [\<lparr>Payment.ID = payments_id_seq s + 1, FromAccountID = src,
                   ToAccountID = dst, Payment.Amount = amount\<rparr>]
           \<and> payments_id_seq s' = payments_id_seq s + 1
           \<and> cs = [CallBegin, CallQueryForUpdate src dst,
                 CallUpdateBalance (Balance fa - amount) src,
                 CallUpdateBalance (Balance ta + amount) dst,
                 CallInsertPayment src dst amount, CallCommit, CallRollback])"
proof -
  let ?t0 = "\<lparr>committed = s, pending = s, closed = False, calls = [CallBegin]\<rparr>"
  from assms have valid: "src \<noteq> []" "dst \<noteq> []" "src \<noteq> dst" "0 < amount" "begin_err flt = None"
    by (auto simp: SendPayment_def Begin_def IsPositive_def split: if_splits option.splits)
  obtain r t where rt: "SendPayment_tx flt ?t0 src dst amount = (r, t)"
    by (cases "SendPayment_tx flt ?t0 src dst amount")
  with valid assms have r: "r = None" and s': "s' = committed t" and cs: "cs = calls (Rollback t)"
    by (auto simp: SendPayment_def Begin_def IsPositive_def committed_Rollback)
  from tx_success [OF rt [unfolded r]] obtain fa ta where
    f: "fetched flt s src dst src = Some fa" "fetched flt s src dst dst = Some ta"
       "Currency fa = Currency ta" "\<not> Balance fa - amount < 0"
    and a: "accounts (pending t) = map (set_balance (Account.ID ta) (Balance ta + amount))
                 (map (set_balance (Account.ID fa) (Balance fa - amount)) (accounts s))"
    and p: "payments (pending t) = payments s @
                 [\<lparr>Payment.ID = payments_id_seq s + 1, FromAccountID = Account.ID fa,
                   ToAccountID = Account.ID ta, Payment.Amount = amount\<rparr>]"
    and q: "payments_id_seq (pending t) = payments_id_seq s + 1"
    and c: "committed t = pending t" "closed t"
    and l: "calls t = [CallBegin] @ [CallQueryForUpdate src dst,
                 CallUpdateBalance (Balance fa - amount) (Account.ID fa),
                 CallUpdateBalance (Balance ta + amount) (Account.ID ta),
                 CallInsertPayment (Account.ID fa) (Account.ID ta) amount, CallCommit]"
    by auto
  from f have ids: "Account.ID fa = src" "Account.ID ta = dst"
    by (auto dest: fetched_ID)
  from c l have "calls (Rollback t) = calls t @ [CallRollback]"
    by (simp add: Rollback_def)
  with valid f a p q c l ids s' cs show ?thesis
    by simp
qed


lemma tx_errors:
  "SendPayment_tx flt t0 src dst amount = (Some e, t) \<Longrightarrow>
     e \<in> {ErrAccountNotFound, ErrCurrencyMismatch, ErrInsufficientBalance} \<or> (\<exists>m. e = StoreError m)"
  unfolding SendPayment_tx_def QueryForUpdate_def ExecUpdateBalance_def ExecInsertPayment_def Commit_def
  by (auto simp: Let_def dest: getAccounts_Inl split: option.splits sum.splits if_splits prod.splits)

lemma getAccounts_None: "getAccounts None rows = Inr (delivered rows)"
  by (simp add: getAccounts_def getAccounts_loop_None)

lemma SendPayment_checks:
  assumes valid: "src \<noteq> []" "dst \<noteq> []" "src \<noteq> dst" "0 < amount"
      and nofault: "begin_err flt = None" "query_err flt = None" "scan_err flt = None"
  shows "fetched flt s src dst src = None \<or> fetched flt s src dst dst = None \<Longrightarrow>
           SendPayment flt s src dst amount =
             (Some ErrAccountNotFound, s, [CallBegin, CallQueryForUpdate src dst, CallRollback])"
    and "fetched flt s src dst src = Some fa \<Longrightarrow> fetched flt s src dst dst = Some ta \<Longrightarrow>
           Currency fa \<noteq> Currency ta \<Longrightarrow>
           SendPayment flt s src dst amount =
             (Some ErrCurrencyMismatch, s, [CallBegin, CallQueryForUpdate src dst, CallRollback])"
    and "fetched flt s src dst src = Some fa \<Longrightarrow> fetched flt s src dst dst = Some ta \<Longrightarrow>
           Currency fa = Currency ta \<Longrightarrow> Sub (Balance fa) amount < 0 \<Longrightarrow>
           SendPayment flt s src dst amount =
             (Some ErrInsufficientBalance, s, [CallBegin, CallQueryForUpdate src dst, CallRollback])"
    and "fetched flt s src dst src = Some fa \<Longrightarrow> fetched flt s src dst dst = Some ta \<Longrightarrow>
           Currency fa = Currency ta \<Longrightarrow> \<not> Sub (Balance fa) amount < 0 \<Longrightarrow>
           fst (SendPayment flt s src dst amount)
             \<notin> {Some ErrAccountNotFound, Some ErrCurrencyMismatch, Some ErrInsufficientBalance}"
proof -
  show "SendPayment flt s src dst amount =
             (Some ErrAccountNotFound, s, [CallBegin, CallQueryForUpdate src dst, CallRollback])"
    if "fetched flt s src dst src = None \<or> fetched flt s src dst dst = None"
    using that valid nofault
    by (auto simp: SendPayment_def SendPayment_tx_def Begin_def QueryForUpdate_def Rollback_def
        IsPositive_def getAccounts_None fetched_def Let_def split: option.splits)
  show "SendPayment flt s src dst amount =
             (Some ErrCurrencyMismatch, s, [CallBegin, CallQueryForUpdate src dst, CallRollback])"
    if "fetched flt s src dst src = Some fa" "fetched flt s src dst dst = Some ta" "Currency fa \<noteq> Currency ta"
    using that valid nofault
    by (simp add: SendPayment_def SendPayment_tx_def Begin_def QueryForUpdate_def Rollback_def
        IsPositive_def getAccounts_None fetched_def Let_def)
  show "SendPayment flt s src dst amount =
             (Some ErrInsufficientBalance, s, [CallBegin, CallQueryForUpdate src dst, CallRollback])"
    if "fetched flt s src dst src = Some fa" "fetched flt s src dst dst = Some ta" "Currency fa = Currency ta"
       "Sub (Balance fa) amount < 0"
    using that valid nofault
    by (simp add: SendPayment_def SendPayment_tx_def Begin_def QueryForUpdate_def Rollback_def
        IsPositive_def IsNegative_def getAccounts_None fetched_def Let_def)
  show "fst (SendPayment flt s src dst amount)
             \<notin> {Some ErrAccountNotFound, Some ErrCurrencyMismatch, Some ErrInsufficientBalance}"
    if "fetched flt s src dst src = Some fa" "fetched flt s src dst dst = Some ta" "Currency fa = Currency ta"
       "\<not> Sub (Balance fa) amount < 0"
    using that valid nofault
    by (auto simp: SendPayment_def SendPayment_tx_def Begin_def QueryForUpdate_def
        ExecUpdateBalance_def ExecInsertPayment_def Commit_def
        IsPositive_def IsNegative_def getAccounts_None fetched_def Let_def
        split: option.splits if_splits)
qed

section \<open>The store of \<^verbatim>\<open>init-db.sh\<close>: concrete runs\<close>

lemmas run_defs =
  SendPayment_def SendPayment_tx_def Begin_def QueryForUpdate_def getAccounts_def
  ExecUpdateBalance_def ExecInsertPayment_def Commit_def Rollback_def Scan_def open_rows_def
  IsPositive_def IsNegative_def Sub_def Add_def no_faults_def init_db_def Let_def

lemma init_db_primary_key: "distinct (map Account.ID (accounts init_db))"
  by (simp add: init_db_def)

text \<open>The happy path of the tests: bob123 sends 10 to alice456.\<close>

lemma pay_bob_alice:
  "SendPayment no_faults init_db ''bob123'' ''alice456'' 10 =
     (None,
      \<lparr>accounts =
         [\<lparr>Account.ID = ''bob123'', Balance = 90, Currency = ''USD''\<rparr>,
          \<lparr>Account.ID = ''alice456'', Balance = 1001 / 100, Currency = ''USD''\<rparr>,
          \<lparr>Account.ID = ''eve789'', Balance = 5000, Currency = ''RUB''\<rparr>],
       payments =
         [\<lparr>Payment.ID = 1, FromAccountID = ''bob123'', ToAccountID = ''alice456'',
           Payment.Amount = 10\<rparr>],
       payments_id_seq = 1\<rparr>,
      [CallBegin, CallQueryForUpdate ''bob123'' ''alice456'', CallUpdateBalance 90 ''bob123'',
       CallUpdateBalance (1001 / 100) ''alice456'', CallInsertPayment ''bob123'' ''alice456'' 10,
       CallCommit, CallRollback])"
  by (simp add: run_defs)

text \<open>Three failing runs: insufficient balance, currency mismatch, and a commit that fails.\<close>

lemma pay_alice_bob_insufficient:
  "SendPayment no_faults init_db ''alice456'' ''bob123'' 100 =
     (Some ErrInsufficientBalance, init_db,
      [CallBegin, CallQueryForUpdate ''alice456'' ''bob123'', CallRollback])"
  by (simp add: run_defs)

lemma pay_alice_eve_mismatch:
  "SendPayment no_faults init_db ''alice456'' ''eve789'' 100 =
     (Some ErrCurrencyMismatch, init_db,
      [CallBegin, CallQueryForUpdate ''alice456'' ''eve789'', CallRollback])"
  by (simp add: run_defs)

lemma pay_commit_fails:
  "SendPayment (no_faults\<lparr>commit_err := Some ''conn closed''\<rparr>) init_db ''bob123'' ''alice456'' 10 =
     (Some (StoreError ''conn closed''), init_db\<lparr>payments_id_seq := 1\<rparr>,
      [CallBegin, CallQueryForUpdate ''bob123'' ''alice456'', CallUpdateBalance 90 ''bob123'',
       CallUpdateBalance (1001 / 100) ''alice456'', CallInsertPayment ''bob123'' ''alice456'' 10,
       CallCommit, CallRollback])"
  by (simp add: run_defs)

section \<open>Conservation\<close>

text \<open>
  C1. When \<^verbatim>\<open>SendPayment\<close> succeeds, the balance of the source account has decreased by
  exactly the amount and the balance of the destination account has increased by exactly
  the amount, both computed exactly (\<^verbatim>\<open>Sub\<close> and \<^verbatim>\<open>Add\<close>), so the sum of the two
  balances is unchanged. The account identifiers are the primary key of the table.
\<close>

theorem C1_conservation:
  assumes pk: "distinct (map Account.ID (accounts s))"
      and ok: "SendPayment flt s src dst amount = (None, s', cs)"
  shows "\<exists>bs bd bs' bd'.
           balance_of s src = Some bs \<and> balance_of s dst = Some bd
         \<and> balance_of s' src = Some bs' \<and> balance_of s' dst = Some bd'
         \<and> bs' = Sub bs amount \<and> bd' = Add bd amount
         \<and> bs' + amount = bs \<and> bd' - amount = bd \<and> bs' + bd' = bs + bd"
proof -
  from SendPayment_success [OF ok] obtain fa ta where
    ne: "src \<noteq> dst"
    and f: "fetched flt s src dst src = Some fa" "fetched flt s src dst dst = Some ta"
    and a: "accounts s' = map (set_balance dst (Balance ta + amount))
                 (map (set_balance src (Balance fa - amount)) (accounts s))"
    by auto
  from f pk have l: "lookup_account s src = Some fa" "lookup_account s dst = Some ta"
    by (simp_all add: fetched_is_row)
  from f have ids: "Account.ID fa = src" "Account.ID ta = dst"
    by (auto dest: fetched_ID)
  have l': "lookup_account s' k =
      map_option (set_balance dst (Balance ta + amount) \<circ> set_balance src (Balance fa - amount))
        (lookup_account s k)" for k
    unfolding lookup_account_def a
    by (simp add: find_map_ID set_balance_def option.map_comp o_def)
  from l l' ids ne have "balance_of s src = Some (Balance fa)" "balance_of s dst = Some (Balance ta)"
    "balance_of s' src = Some (Balance fa - amount)" "balance_of s' dst = Some (Balance ta + amount)"
    by (simp_all add: balance_of_def set_balance_def)
  then show ?thesis
    by (simp add: Sub_def Add_def)
qed

theorem C1_conservation_witness:
  "distinct (map Account.ID (accounts init_db))
   \<and> (\<exists>s' cs. SendPayment no_faults init_db ''bob123'' ''alice456'' 10 = (None, s', cs)
        \<and> balance_of init_db ''bob123'' = Some 100 \<and> balance_of init_db ''alice456'' = Some (1 / 100)
        \<and> balance_of s' ''bob123'' = Some 90 \<and> balance_of s' ''alice456'' = Some (1001 / 100))"
proof -
  have pk: "distinct (map Account.ID (accounts init_db))"
    by (rule init_db_primary_key)
  obtain r s' cs where run: "SendPayment no_faults init_db ''bob123'' ''alice456'' 10 = (r, s', cs)"
    by (cases "SendPayment no_faults init_db ''bob123'' ''alice456'' 10") auto
  have r: "r = None"
    using run by (simp add: pay_bob_alice)
  have b: "balance_of init_db ''bob123'' = Some 100" "balance_of init_db ''alice456'' = Some (1 / 100)"
    by (simp_all add: balance_of_def lookup_account_def init_db_def)
  from C1_conservation [OF pk run [unfolded r]] b
  have "balance_of s' ''bob123'' = Some 90 \<and> balance_of s' ''alice456'' = Some (1001 / 100)"
    by (auto simp: Sub_def Add_def)
  with pk run r b show ?thesis by simp
qed


section \<open>Atomicity\<close>

text \<open>
  C2. When \<^verbatim>\<open>SendPayment\<close> returns an error, whichever it is and whichever calls on
  the store failed, the rows of the accounts table and of the payments table are what they
  were before the call. When it returns nil, it has issued exactly three writes, the two
  balance updates and the insertion of the record, then a commit; the store it leaves is the
  store before the call with these three writes applied, and it is the store the
  transaction saw when it committed. (The sequence of payment identifiers is no part of
  either table; a failed call may have advanced it. That a commit which returns an error
  has installed nothing is how \<open>Commit\<close> models the store.)
\<close>

theorem C2_atomicity:
  "(SendPayment flt s src dst amount = (Some e, s', cs)
      \<longrightarrow> accounts s' = accounts s \<and> payments s' = payments s)
   \<and> (SendPayment flt s src dst amount = (None, s', cs)
      \<longrightarrow> (\<exists>bs bd.
               cs = [CallBegin, CallQueryForUpdate src dst, CallUpdateBalance bs src,
                     CallUpdateBalance bd dst, CallInsertPayment src dst amount,
                     CallCommit, CallRollback]
             \<and> accounts s' = map (set_balance dst bd) (map (set_balance src bs) (accounts s))
             \<and> payments s' = payments s @
                   [\<lparr>Payment.ID = payments_id_seq s + 1, FromAccountID = src,
                     ToAccountID = dst, Payment.Amount = amount\<rparr>])
          \<and> (\<exists>t0 t. Begin flt s = Inr t0 \<and> SendPayment_tx flt t0 src dst amount = (None, t)
             \<and> closed t \<and> pending t = committed t \<and> s' = committed t
             \<and> cs = butlast (calls t) @ [CallCommit, CallRollback]))"
proof -
  have fails: "accounts s' = accounts s \<and> payments s' = payments s"
    if "SendPayment flt s src dst amount = (Some e, s', cs)"
    using that by (rule SendPayment_failure)
  have writes: "\<exists>bs bd.
               cs = [CallBegin, CallQueryForUpdate src dst, CallUpdateBalance bs src,
                     CallUpdateBalance bd dst, CallInsertPayment src dst amount,
                     CallCommit, CallRollback]
             \<and> accounts s' = map (set_balance dst bd) (map (set_balance src bs) (accounts s))
             \<and> payments s' = payments s @
                   [\<lparr>Payment.ID = payments_id_seq s + 1, FromAccountID = src,
                     ToAccountID = dst, Payment.Amount = amount\<rparr>]"
    if ok: "SendPayment flt s src dst amount = (None, s', cs)"
    using SendPayment_success [OF ok] by blast
  have succeeds: "\<exists>t0 t. Begin flt s = Inr t0 \<and> SendPayment_tx flt t0 src dst amount = (None, t)
             \<and> closed t \<and> pending t = committed t \<and> s' = committed t
             \<and> cs = butlast (calls t) @ [CallCommit, CallRollback]"
    if ok: "SendPayment flt s src dst amount = (None, s', cs)"
  proof -
    let ?t0 = "\<lparr>committed = s, pending = s, closed = False, calls = [CallBegin]\<rparr>"
    from ok have valid: "src \<noteq> []" "dst \<noteq> []" "src \<noteq> dst" "IsPositive amount"
      and b: "Begin flt s = Inr ?t0"
      by (auto simp: SendPayment_def Begin_def split: if_splits option.splits)
    obtain r t where rt: "SendPayment_tx flt ?t0 src dst amount = (r, t)"
      by (cases "SendPayment_tx flt ?t0 src dst amount")
    with valid b ok have r: "r = None" and s': "s' = committed t" and cs: "cs = calls (Rollback t)"
      by (auto simp: SendPayment_def committed_Rollback)
    from tx_success [OF rt [unfolded r]] have c: "committed t = pending t" "closed t"
      and l: "last (calls t) = CallCommit" "calls t \<noteq> []"
      by auto
    from l have "calls t = butlast (calls t) @ [CallCommit]"
      by (metis append_butlast_last_id)
    with c have "calls (Rollback t) = butlast (calls t) @ [CallCommit, CallRollback]"
      by (simp add: Rollback_def)
    with b rt r s' cs c show ?thesis
      by auto
  qed
  from fails writes succeeds show ?thesis
    by blast
qed

theorem C2_atomicity_witness:
  "SendPayment (no_faults\<lparr>commit_err := Some ''conn closed''\<rparr>) init_db ''bob123'' ''alice456'' 10
     = (Some (StoreError ''conn closed''), init_db\<lparr>payments_id_seq := 1\<rparr>,
        [CallBegin, CallQueryForUpdate ''bob123'' ''alice456'', CallUpdateBalance 90 ''bob123'',
         CallUpdateBalance (1001 / 100) ''alice456'', CallInsertPayment ''bob123'' ''alice456'' 10,
         CallCommit, CallRollback])
   \<and> accounts (init_db\<lparr>payments_id_seq := 1\<rparr>) = accounts init_db
   \<and> payments (init_db\<lparr>payments_id_seq := 1\<rparr>) = payments init_db
   \<and> (\<exists>s' cs. SendPayment no_faults init_db ''bob123'' ''alice456'' 10 = (None, s', cs)
         \<and> (\<exists>bs bd.
               cs = [CallBegin, CallQueryForUpdate ''bob123'' ''alice456'',
                     CallUpdateBalance bs ''bob123'', CallUpdateBalance bd ''alice456'',
                     CallInsertPayment ''bob123'' ''alice456'' 10, CallCommit, CallRollback]
             \<and> accounts s' = map (set_balance ''alice456'' bd)
                   (map (set_balance ''bob123'' bs) (accounts init_db))
             \<and> payments s' = payments init_db @
                   [\<lparr>Payment.ID = payments_id_seq init_db + 1, FromAccountID = ''bob123'',
                     ToAccountID = ''alice456'', Payment.Amount = 10\<rparr>])
         \<and> (\<exists>t0 t. Begin no_faults init_db = Inr t0
               \<and> SendPayment_tx no_faults t0 ''bob123'' ''alice456'' 10 = (None, t)
               \<and> closed t \<and> pending t = committed t \<and> s' = committed t))"
proof -
  obtain s' cs where ok: "SendPayment no_faults init_db ''bob123'' ''alice456'' 10 = (None, s', cs)"
    using pay_bob_alice by blast
  note fail_case =
    C2_atomicity [of "no_faults\<lparr>commit_err := Some ''conn closed''\<rparr>" init_db
          "''bob123''" "''alice456''" 10 "StoreError ''conn closed''"
          "init_db\<lparr>payments_id_seq := 1\<rparr>"
          "[CallBegin, CallQueryForUpdate ''bob123'' ''alice456'', CallUpdateBalance 90 ''bob123'',
            CallUpdateBalance (1001 / 100) ''alice456'', CallInsertPayment ''bob123'' ''alice456'' 10,
            CallCommit, CallRollback]", THEN conjunct1]
  note ok_case = C2_atomicity [of no_faults init_db "''bob123''" "''alice456''" 10 ErrSameAccount s' cs,
          THEN conjunct2, rule_format, OF ok]
  from fail_case pay_commit_fails
  have unchanged: "accounts (init_db\<lparr>payments_id_seq := 1\<rparr>) = accounts init_db
       \<and> payments (init_db\<lparr>payments_id_seq := 1\<rparr>) = payments init_db"
    by blast
  from ok_case have "\<exists>bs bd.
               cs = [CallBegin, CallQueryForUpdate ''bob123'' ''alice456'',
                     CallUpdateBalance bs ''bob123'', CallUpdateBalance bd ''alice456'',
                     CallInsertPayment ''bob123'' ''alice456'' 10, CallCommit, CallRollback]
             \<and> accounts s' = map (set_balance ''alice456'' bd)
                   (map (set_balance ''bob123'' bs) (accounts init_db))
             \<and> payments s' = payments init_db @
                   [\<lparr>Payment.ID = payments_id_seq init_db + 1, FromAccountID = ''bob123'',
                     ToAccountID = ''alice456'', Payment.Amount = 10\<rparr>]"
    and "\<exists>t0 t. Begin no_faults init_db = Inr t0
               \<and> SendPayment_tx no_faults t0 ''bob123'' ''alice456'' 10 = (None, t)
               \<and> closed t \<and> pending t = committed t \<and> s' = committed t"
    by blast+
  with ok unchanged [THEN conjunct1] unchanged [THEN conjunct2] pay_commit_fails show ?thesis
    by (intro conjI exI [of _ s'] exI [of _ cs])
qed

section \<open>The checks of the parameters\<close>

text \<open>
  C4. \<^verbatim>\<open>SendPayment\<close> checks its parameters in a fixed order and the first check that
  fails decides the error: an empty identifier gives \<open>ErrAccountNotSpecified\<close> (also when
  both are empty, and so equal); otherwise equal identifiers give \<open>ErrSameAccount\<close>;
  otherwise an amount that is zero or negative gives \<open>ErrInvalidAmount\<close>. In each case
  the store is untouched and no call was made on it, whatever the store holds and
  whichever calls would fail. When the three checks pass, the first call is
  \<^verbatim>\<open>Begin\<close> and none of the three errors is returned.
\<close>

theorem C4_validation_order:
  "(src = [] \<or> dst = []
      \<longrightarrow> SendPayment flt s src dst amount = (Some ErrAccountNotSpecified, s, []))
   \<and> (src \<noteq> [] \<and> dst \<noteq> [] \<and> src = dst
      \<longrightarrow> SendPayment flt s src dst amount = (Some ErrSameAccount, s, []))
   \<and> (src \<noteq> [] \<and> dst \<noteq> [] \<and> src \<noteq> dst \<and> amount \<le> 0
      \<longrightarrow> SendPayment flt s src dst amount = (Some ErrInvalidAmount, s, []))
   \<and> (src \<noteq> [] \<and> dst \<noteq> [] \<and> src \<noteq> dst \<and> 0 < amount
      \<longrightarrow> (\<exists>r s' cs. SendPayment flt s src dst amount = (r, s', CallBegin # cs)
             \<and> r \<notin> {Some ErrAccountNotSpecified, Some ErrSameAccount, Some ErrInvalidAmount}))"
proof (intro conjI impI)
  assume v: "src \<noteq> [] \<and> dst \<noteq> [] \<and> src \<noteq> dst \<and> 0 < amount"
  let ?t0 = "\<lparr>committed = s, pending = s, closed = False, calls = [CallBegin]\<rparr>"
  show "\<exists>r s' cs. SendPayment flt s src dst amount = (r, s', CallBegin # cs)
             \<and> r \<notin> {Some ErrAccountNotSpecified, Some ErrSameAccount, Some ErrInvalidAmount}"
  proof (cases "begin_err flt")
    case (Some m)
    with v show ?thesis
      by (simp add: SendPayment_def Begin_def IsPositive_def)
  next
    case None
    obtain r t where rt: "SendPayment_tx flt ?t0 src dst amount = (r, t)"
      by (cases "SendPayment_tx flt ?t0 src dst amount")
    then have "\<exists>cs. calls t = CallBegin # cs"
      unfolding SendPayment_tx_def QueryForUpdate_def ExecUpdateBalance_def ExecInsertPayment_def Commit_def
      by (auto simp: Let_def split: option.splits sum.splits if_splits prod.splits)
    then have l: "\<exists>cs. calls (Rollback t) = CallBegin # cs"
      by (auto simp: Rollback_def)
    from rt have "r \<notin> {Some ErrAccountNotSpecified, Some ErrSameAccount, Some ErrInvalidAmount}"
      unfolding SendPayment_tx_def QueryForUpdate_def ExecUpdateBalance_def ExecInsertPayment_def Commit_def
      by (auto simp: Let_def dest: getAccounts_Inl split: option.splits sum.splits if_splits prod.splits)
    with v None rt l show ?thesis
      by (auto simp: SendPayment_def Begin_def IsPositive_def)
  qed
qed (auto simp: SendPayment_def IsPositive_def)

theorem C4_validation_order_witness:
  "SendPayment no_faults init_db [] [] 1 = (Some ErrAccountNotSpecified, init_db, [])
   \<and> SendPayment no_faults init_db ''testid'' [] 1 = (Some ErrAccountNotSpecified, init_db, [])
   \<and> ''testid'' \<noteq> [] \<and> SendPayment no_faults init_db ''testid'' ''testid'' 1 = (Some ErrSameAccount, init_db, [])
   \<and> ''testid1'' \<noteq> ''testid2'' \<and> (- 1 :: decimal) \<le> 0
   \<and> SendPayment no_faults init_db ''testid1'' ''testid2'' (- 1) = (Some ErrInvalidAmount, init_db, [])
   \<and> SendPayment no_faults init_db ''testid1'' ''testid2'' 0 = (Some ErrInvalidAmount, init_db, [])
   \<and> (0 :: decimal) < 10
   \<and> (\<exists>r s' cs. SendPayment no_faults init_db ''bob123'' ''alice456'' 10 = (r, s', CallBegin # cs)
         \<and> r \<notin> {Some ErrAccountNotSpecified, Some ErrSameAccount, Some ErrInvalidAmount})"
  using C4_validation_order [of "[]" "[]" no_faults init_db 1]
        C4_validation_order [of "''testid''" "[]" no_faults init_db 1]
        C4_validation_order [of "''testid''" "''testid''" no_faults init_db 1]
        C4_validation_order [of "''testid1''" "''testid2''" no_faults init_db "- 1"]
        C4_validation_order [of "''testid1''" "''testid2''" no_faults init_db 0]
        C4_validation_order [of "''bob123''" "''alice456''" no_faults init_db 10]
  by simp




section \<open>The checks inside the transaction\<close>

text \<open>
  When \<^verbatim>\<open>Begin\<close> and the query do not fail, no scan fails and the query delivers all its
  rows, the checks come in a fixed order: an account that is absent from the store gives
  \<open>ErrAccountNotFound\<close>; otherwise two different currencies give \<open>ErrCurrencyMismatch\<close>,
  whatever the balances are; otherwise a new source balance that is negative gives
  \<open>ErrInsufficientBalance\<close>; otherwise none of the three errors is returned.
\<close>

lemma checks_on_complete_read:
  assumes "src \<noteq> []" "dst \<noteq> []" "src \<noteq> dst" "0 < amount"
      and "begin_err flt = None" "query_err flt = None" "scan_err flt = None"
      and complete: "rows_err flt = None"
      and pk: "distinct (map Account.ID (accounts s))"
  shows "(lookup_account s src = None \<or> lookup_account s dst = None \<longrightarrow>
            SendPayment flt s src dst amount =
              (Some ErrAccountNotFound, s, [CallBegin, CallQueryForUpdate src dst, CallRollback]))
       \<and> (\<forall>fa ta. lookup_account s src = Some fa \<and> lookup_account s dst = Some ta \<longrightarrow>
            (Currency fa \<noteq> Currency ta \<longrightarrow>
               SendPayment flt s src dst amount =
                 (Some ErrCurrencyMismatch, s, [CallBegin, CallQueryForUpdate src dst, CallRollback]))
          \<and> (Currency fa = Currency ta \<and> Sub (Balance fa) amount < 0 \<longrightarrow>
               SendPayment flt s src dst amount =
                 (Some ErrInsufficientBalance, s, [CallBegin, CallQueryForUpdate src dst, CallRollback]))
          \<and> (Currency fa = Currency ta \<and> \<not> Sub (Balance fa) amount < 0 \<longrightarrow>
               fst (SendPayment flt s src dst amount)
                 \<notin> {Some ErrAccountNotFound, Some ErrCurrencyMismatch, Some ErrInsufficientBalance}))"
proof -
  from pk complete have l: "fetched flt s src dst src = lookup_account s src"
    "fetched flt s src dst dst = lookup_account s dst"
    by (simp_all add: fetched_lookup)
  show ?thesis
    using SendPayment_checks [OF assms(1-7), of s] unfolding l
    by blast
qed

text \<open>
  A query that fails while its rows are read, before the first row: \<^verbatim>\<open>Query\<close> has returned
  nil, \<^verbatim>\<open>rows.Next()\<close> is false at once and the error is in \<^verbatim>\<open>rows.Err()\<close>.
\<close>

lemma pay_alice_eve_rows_fail:
  "SendPayment (no_faults\<lparr>rows_err := Some (0, ''deadlock detected'')\<rparr>) init_db
       ''alice456'' ''eve789'' 100 =
     (Some ErrAccountNotFound, init_db,
      [CallBegin, CallQueryForUpdate ''alice456'' ''eve789'', CallRollback])"
  by (simp add: run_defs)

text \<open>
  C5. The claim: inside the transaction an account that is absent from the store gives
  \<open>ErrAccountNotFound\<close>, otherwise two different currencies give \<open>ErrCurrencyMismatch\<close>,
  otherwise a negative new source balance gives \<open>ErrInsufficientBalance\<close>, so a currency
  mismatch is always what is reported when the balance is insufficient too. The code makes
  the three checks in this order, but on the rows that \<^verbatim>\<open>getAccounts\<close> got, and
  \<^verbatim>\<open>getAccounts\<close> does not read \<^verbatim>\<open>rows.Err()\<close>. Below, alice456 (USD, balance 0.01) and
  eve789 (RUB) are both in the store and the amount is 100, so the currencies differ and
  the balance is insufficient: when the query fails while its rows are read the call
  returns \<open>ErrAccountNotFound\<close>, where the same call on the same store returns
  \<open>ErrCurrencyMismatch\<close> when the rows arrive.
\<close>

theorem C5_not_found_for_present_accounts:
  "lookup_account init_db ''alice456''
     = Some \<lparr>Account.ID = ''alice456'', Balance = 1 / 100, Currency = ''USD''\<rparr>
   \<and> lookup_account init_db ''eve789''
     = Some \<lparr>Account.ID = ''eve789'', Balance = 5000, Currency = ''RUB''\<rparr>
   \<and> Sub (1 / 100) 100 < 0
   \<and> fst (SendPayment (no_faults\<lparr>rows_err := Some (0, ''deadlock detected'')\<rparr>) init_db
            ''alice456'' ''eve789'' 100) = Some ErrAccountNotFound
   \<and> fst (SendPayment no_faults init_db ''alice456'' ''eve789'' 100) = Some ErrCurrencyMismatch"
proof -
  have rows: "lookup_account init_db ''alice456''
       = Some \<lparr>Account.ID = ''alice456'', Balance = 1 / 100, Currency = ''USD''\<rparr>"
    "lookup_account init_db ''eve789''
       = Some \<lparr>Account.ID = ''eve789'', Balance = 5000, Currency = ''RUB''\<rparr>"
    by (simp_all add: lookup_account_def init_db_def)
  have neg: "Sub (1 / 100) 100 < 0"
    by (simp add: Sub_def)
  from rows neg show ?thesis
    by (simp add: pay_alice_eve_rows_fail pay_alice_eve_mismatch)
qed

section \<open>No negative balance\<close>

lemma set_balance_ID: "Account.ID (set_balance k b r) = Account.ID r"
  by (simp add: set_balance_def)

lemma set_balance_Currency: "Currency (set_balance k b r) = Currency r"
  by (simp add: set_balance_def)

lemma SendPayment_nonneg:
  assumes nn: "nonneg s" and run: "SendPayment flt s src dst amount = (r, s', cs)"
  shows "nonneg s'"
proof (cases r)
  case (Some e)
  with run have "accounts s' = accounts s"
    by (simp add: SendPayment_failure)
  with nn show ?thesis by (simp add: nonneg_def)
next
  case None
  from SendPayment_success [OF run [unfolded None]] obtain fa ta where
    pos: "0 < amount"
    and f: "fetched flt s src dst src = Some fa" "fetched flt s src dst dst = Some ta"
    and ok: "\<not> Balance fa - amount < 0"
    and a: "accounts s' = map (set_balance dst (Balance ta + amount))
                 (map (set_balance src (Balance fa - amount)) (accounts s))"
    by auto
  from f(2) have "ta \<in> set (accounts s)" by (auto dest: fetched_ID)
  with nn have "0 \<le> Balance ta" by (auto simp: nonneg_def IsNegative_def)
  with pos have "\<not> Balance ta + amount < 0" by simp
  with ok nn show ?thesis
    unfolding nonneg_def a by (auto simp: set_balance_def IsNegative_def)
qed

lemma run_nonneg: "nonneg s \<Longrightarrow> nonneg (run s reqs)"
proof (induction reqs arbitrary: s)
  case Nil
  then show ?case by simp
next
  case (Cons q reqs)
  obtain flt src dst amount where q: "q = (flt, src, dst, amount)"
    by (cases q) auto
  obtain r s' cs where st: "SendPayment flt s src dst amount = (r, s', cs)"
    by (cases "SendPayment flt s src dst amount") auto
  from SendPayment_nonneg [OF Cons.prems st] have "nonneg s'" .
  from Cons.IH [OF this] q st show ?case by simp
qed

lemma SendPayment_insufficient:
  assumes pk: "distinct (map Account.ID (accounts s))"
      and b: "balance_of s src = Some b" and neg: "Sub b amount < 0"
      and run: "SendPayment flt s src dst amount = (r, s', cs)"
  shows "r \<noteq> None"
proof
  assume "r = None"
  from SendPayment_success [OF run [unfolded this]] obtain fa where
    f: "fetched flt s src dst src = Some fa" and ok: "\<not> Balance fa - amount < 0"
    by auto
  from f pk have "lookup_account s src = Some fa"
    by (simp add: fetched_is_row)
  with b have "b = Balance fa" by (simp add: balance_of_def)
  with ok neg show False by (simp add: Sub_def)
qed

text \<open>
  C3. From a store in which no balance is negative, after any sequence of
  \<^verbatim>\<open>SendPayment\<close> calls, whether they succeed or fail, no balance is negative, and so
  after every prefix of the sequence. A transfer whose new source balance would be
  negative never succeeds and leaves both tables as they were; when it reaches the balance
  check (the parameters are valid, the store answers, the query delivers all its rows and
  the destination has the source's currency) its error is \<open>ErrInsufficientBalance\<close>.
\<close>

theorem C3_no_negative_balance:
  assumes nn: "nonneg s"
  shows "(\<forall>n. nonneg (run s (take n reqs)))
       \<and> (\<forall>flt src dst amount b r s' cs.
             distinct (map Account.ID (accounts s)) \<and> balance_of s src = Some b
             \<and> Sub b amount < 0 \<and> SendPayment flt s src dst amount = (r, s', cs)
             \<longrightarrow> r \<noteq> None \<and> accounts s' = accounts s \<and> payments s' = payments s
                 \<and> (src \<noteq> [] \<and> dst \<noteq> [] \<and> src \<noteq> dst \<and> 0 < amount
                    \<and> begin_err flt = None \<and> query_err flt = None \<and> rows_err flt = None
                    \<and> scan_err flt = None \<and> currency_of s dst = currency_of s src
                    \<longrightarrow> r = Some ErrInsufficientBalance))"
proof (intro conjI allI impI)
  fix n
  from nn show "nonneg (run s (take n reqs))" by (rule run_nonneg)
next
  fix flt src dst amount b r s' cs
  assume h: "distinct (map Account.ID (accounts s)) \<and> balance_of s src = Some b
             \<and> Sub b amount < 0 \<and> SendPayment flt s src dst amount = (r, s', cs)"
  then show r: "r \<noteq> None"
    using SendPayment_insufficient by blast
  then obtain e where "r = Some e" by auto
  with h have "accounts s' = accounts s \<and> payments s' = payments s"
    using SendPayment_failure by blast
  then show "accounts s' = accounts s" "payments s' = payments s" by simp_all
  assume v: "src \<noteq> [] \<and> dst \<noteq> [] \<and> src \<noteq> dst \<and> 0 < amount
                    \<and> begin_err flt = None \<and> query_err flt = None \<and> rows_err flt = None
                    \<and> scan_err flt = None \<and> currency_of s dst = currency_of s src"
  from h obtain fa where fa: "lookup_account s src = Some fa" "Balance fa = b"
    by (auto simp: balance_of_def)
  with v obtain ta where ta: "lookup_account s dst = Some ta" "Currency ta = Currency fa"
    by (auto simp: currency_of_def)
  from h v have l: "fetched flt s src dst src = lookup_account s src"
    "fetched flt s src dst dst = lookup_account s dst"
    by (simp_all add: fetched_lookup)
  from v have "SendPayment flt s src dst amount =
             (Some ErrInsufficientBalance, s, [CallBegin, CallQueryForUpdate src dst, CallRollback])"
    using h fa ta l by (intro SendPayment_checks(3) [of src dst amount flt s fa ta]) simp_all
  with h show "r = Some ErrInsufficientBalance" by simp
qed

theorem C3_no_negative_balance_witness:
  "nonneg init_db
   \<and> nonneg (run init_db [(no_faults, ''bob123'', ''alice456'', 10),
                          (no_faults, ''alice456'', ''bob123'', 100)])
   \<and> run init_db (take 1 [(no_faults, ''bob123'', ''alice456'', 10),
                          (no_faults, ''alice456'', ''bob123'', 100)])
       = fst (snd (SendPayment no_faults init_db ''bob123'' ''alice456'' 10))
   \<and> balance_of init_db ''alice456'' = Some (1 / 100) \<and> Sub (1 / 100) 100 < 0
   \<and> SendPayment no_faults init_db ''alice456'' ''bob123'' 100 =
        (Some ErrInsufficientBalance, init_db,
         [CallBegin, CallQueryForUpdate ''alice456'' ''bob123'', CallRollback])"
proof -
  have nn: "nonneg init_db"
    by (simp add: nonneg_def init_db_def IsNegative_def)
  have b: "balance_of init_db ''alice456'' = Some (1 / 100)"
    by (simp add: balance_of_def lookup_account_def init_db_def)
  have neg: "Sub (1 / 100) 100 < 0"
    by (simp add: Sub_def)
  let ?reqs = "[(no_faults, ''bob123'', ''alice456'', 10), (no_faults, ''alice456'', ''bob123'', 100)]"
  note c3 = C3_no_negative_balance [OF nn, of ?reqs]
  from c3 have "nonneg (run init_db (take 2 ?reqs))"
    by blast
  then have seq: "nonneg (run init_db ?reqs)" by simp
  have nf: "begin_err no_faults = None" "query_err no_faults = None" "rows_err no_faults = None"
    "scan_err no_faults = None"
    by (simp_all add: no_faults_def)
  have cur: "currency_of init_db ''bob123'' = currency_of init_db ''alice456''"
    by (simp add: currency_of_def lookup_account_def init_db_def)
  obtain r s' cs where st: "SendPayment no_faults init_db ''alice456'' ''bob123'' 100 = (r, s', cs)"
    by (cases "SendPayment no_faults init_db ''alice456'' ''bob123'' 100") auto
  note at_alice_bob =
    c3 [THEN conjunct2, THEN spec [where x = no_faults], THEN spec [where x = "''alice456''"],
        THEN spec [where x = "''bob123''"], THEN spec [where x = 100],
        THEN spec [where x = "1 / 100"], THEN spec [where x = r], THEN spec [where x = s'],
        THEN spec [where x = cs]]
  from at_alice_bob init_db_primary_key b neg st nf cur have "r = Some ErrInsufficientBalance"
    by simp
  with st have "fst (SendPayment no_faults init_db ''alice456'' ''bob123'' 100) = Some ErrInsufficientBalance"
    by simp
  with nn b neg seq show ?thesis
    by (simp add: pay_alice_bob_insufficient)
qed


section \<open>What a transfer leaves alone\<close>

lemma unique_row:
  assumes "distinct (map Account.ID xs)" and "find (\<lambda>r. Account.ID r = k) xs = Some a"
      and "i < length xs" and "Account.ID (xs ! i) = k"
  shows "xs ! i = a"
proof -
  from assms(3) have "xs ! i \<in> set xs" by simp
  from find_distinct [OF assms(1) this] assms(2,4) show ?thesis by simp
qed

text \<open>
  C9. \<^verbatim>\<open>SendPayment\<close> changes no account's identifier and no account's currency, and
  nothing of an account that is neither the source nor the destination; the payment
  records the table held stay as they are. A call that fails changes neither table. A
  call that succeeds appends one payment record, from the source to the destination with
  the amount, and changes the balance of the source row and of the destination row, by
  the amount (which is positive) down and up, and no other field of them.
\<close>

theorem C9_frame:
  assumes st: "SendPayment flt s src dst amount = (r, s', cs)"
  shows "map Account.ID (accounts s') = map Account.ID (accounts s)
       \<and> map Currency (accounts s') = map Currency (accounts s)
       \<and> (\<forall>i < length (accounts s).
             Account.ID (accounts s ! i) \<notin> {src, dst} \<longrightarrow> accounts s' ! i = accounts s ! i)
       \<and> take (length (payments s)) (payments s') = payments s
       \<and> (r \<noteq> None \<longrightarrow> accounts s' = accounts s \<and> payments s' = payments s)
       \<and> (r = None \<longrightarrow>
             0 < amount \<and> src \<noteq> dst
           \<and> src \<in> Account.ID ` set (accounts s) \<and> dst \<in> Account.ID ` set (accounts s)
           \<and> (\<exists>n. payments s' = payments s @
                  [\<lparr>Payment.ID = n, FromAccountID = src, ToAccountID = dst, Payment.Amount = amount\<rparr>])
           \<and> (distinct (map Account.ID (accounts s)) \<longrightarrow>
                (\<forall>i < length (accounts s).
                   (Account.ID (accounts s ! i) = src \<longrightarrow>
                      accounts s' ! i = (accounts s ! i)\<lparr>Balance := Balance (accounts s ! i) - amount\<rparr>)
                 \<and> (Account.ID (accounts s ! i) = dst \<longrightarrow>
                      accounts s' ! i = (accounts s ! i)\<lparr>Balance := Balance (accounts s ! i) + amount\<rparr>))))"
proof (cases r)
  case (Some e)
  with st have "accounts s' = accounts s \<and> payments s' = payments s"
    by (simp add: SendPayment_failure)
  with Some show ?thesis by simp
next
  case None
  from SendPayment_success [OF st [unfolded None]] obtain fa ta where
    v: "0 < amount" "src \<noteq> dst"
    and f: "fetched flt s src dst src = Some fa" "fetched flt s src dst dst = Some ta"
    and a: "accounts s' = map (set_balance dst (Balance ta + amount))
                 (map (set_balance src (Balance fa - amount)) (accounts s))"
    and p: "payments s' = payments s @
                 [\<lparr>Payment.ID = payments_id_seq s + 1, FromAccountID = src,
                   ToAccountID = dst, Payment.Amount = amount\<rparr>]"
    by auto
  have ids: "map Account.ID (accounts s') = map Account.ID (accounts s)"
    unfolding a by (simp add: set_balance_ID o_def)
  have curs: "map Currency (accounts s') = map Currency (accounts s)"
    unfolding a by (simp add: set_balance_Currency o_def)
  have others: "\<forall>i < length (accounts s).
             Account.ID (accounts s ! i) \<notin> {src, dst} \<longrightarrow> accounts s' ! i = accounts s ! i"
    unfolding a by (simp add: set_balance_def)
  from f have present: "src \<in> Account.ID ` set (accounts s)" "dst \<in> Account.ID ` set (accounts s)"
    by (auto dest!: fetched_ID)
  have two: "\<forall>i < length (accounts s).
                   (Account.ID (accounts s ! i) = src \<longrightarrow>
                      accounts s' ! i = (accounts s ! i)\<lparr>Balance := Balance (accounts s ! i) - amount\<rparr>)
                 \<and> (Account.ID (accounts s ! i) = dst \<longrightarrow>
                      accounts s' ! i = (accounts s ! i)\<lparr>Balance := Balance (accounts s ! i) + amount\<rparr>)"
    if pk: "distinct (map Account.ID (accounts s))"
  proof (intro allI impI conjI)
    fix i assume i: "i < length (accounts s)"
    from fetched_is_row [OF pk f(1)] fetched_is_row [OF pk f(2)]
    have l: "find (\<lambda>r. Account.ID r = src) (accounts s) = Some fa"
      "find (\<lambda>r. Account.ID r = dst) (accounts s) = Some ta"
      by (simp_all add: lookup_account_def)
    { assume is_src: "Account.ID (accounts s ! i) = src"
      with unique_row [OF pk l(1) i] have "accounts s ! i = fa" by simp
      with i v is_src
      show "accounts s' ! i = (accounts s ! i)\<lparr>Balance := Balance (accounts s ! i) - amount\<rparr>"
        unfolding a by (simp add: set_balance_def) }
    { assume is_dst: "Account.ID (accounts s ! i) = dst"
      with unique_row [OF pk l(2) i] have "accounts s ! i = ta" by simp
      with i v is_dst
      show "accounts s' ! i = (accounts s ! i)\<lparr>Balance := Balance (accounts s ! i) + amount\<rparr>"
        unfolding a by (auto simp: set_balance_def) }
  qed
  from p have pre: "take (length (payments s)) (payments s') = payments s"
    by simp
  from None v ids curs others present p two pre show ?thesis
    by blast
qed

theorem C9_frame_witness:
  "(\<exists>s' cs. SendPayment no_faults init_db ''bob123'' ''alice456'' 10 = (None, s', cs)
      \<and> map Account.ID (accounts s') = [''bob123'', ''alice456'', ''eve789'']
      \<and> map Currency (accounts s') = [''USD'', ''USD'', ''RUB'']
      \<and> (2::nat) < length (accounts init_db)
      \<and> Account.ID (accounts init_db ! 2) \<notin> {''bob123'', ''alice456''}
      \<and> accounts s' ! 2 = accounts init_db ! 2
      \<and> distinct (map Account.ID (accounts init_db))
      \<and> Account.ID (accounts init_db ! 0) = ''bob123''
      \<and> accounts s' ! 0 = (accounts init_db ! 0)\<lparr>Balance := 90\<rparr>
      \<and> Account.ID (accounts init_db ! 1) = ''alice456''
      \<and> accounts s' ! 1 = (accounts init_db ! 1)\<lparr>Balance := 1001 / 100\<rparr>
      \<and> take (length (payments init_db)) (payments s') = payments init_db)"
proof -
  obtain s' cs where st: "SendPayment no_faults init_db ''bob123'' ''alice456'' 10 = (None, s', cs)"
    using pay_bob_alice by blast
  note fr = C9_frame [OF st]
  have len: "(2::nat) < length (accounts init_db)" "(0::nat) < length (accounts init_db)"
    "(1::nat) < length (accounts init_db)"
    by (simp_all add: init_db_def)
  have rows: "Account.ID (accounts init_db ! 2) \<notin> {''bob123'', ''alice456''}"
    "Account.ID (accounts init_db ! 0) = ''bob123''" "Account.ID (accounts init_db ! 1) = ''alice456''"
    "Balance (accounts init_db ! 0) - 10 = 90" "Balance (accounts init_db ! 1) + 10 = 1001 / 100"
    "map Account.ID (accounts init_db) = [''bob123'', ''alice456'', ''eve789'']"
    "map Currency (accounts init_db) = [''USD'', ''USD'', ''RUB'']"
    by (simp_all add: init_db_def)
  from fr len rows(1) have r2: "accounts s' ! 2 = accounts init_db ! 2" by blast
  from fr init_db_primary_key len(2) rows(2)
  have "accounts s' ! 0 = (accounts init_db ! 0)\<lparr>Balance := Balance (accounts init_db ! 0) - 10\<rparr>"
    by blast
  with rows(4) have r0: "accounts s' ! 0 = (accounts init_db ! 0)\<lparr>Balance := 90\<rparr>" by simp
  from fr init_db_primary_key len(3) rows(3)
  have "accounts s' ! 1 = (accounts init_db ! 1)\<lparr>Balance := Balance (accounts init_db ! 1) + 10\<rparr>"
    by blast
  with rows(5) have r1: "accounts s' ! 1 = (accounts init_db ! 1)\<lparr>Balance := 1001 / 100\<rparr>" by simp
  from fr rows(6,7) have m: "map Account.ID (accounts s') = [''bob123'', ''alice456'', ''eve789'']"
    "map Currency (accounts s') = [''USD'', ''USD'', ''RUB'']"
    "take (length (payments init_db)) (payments s') = payments init_db"
    by simp_all
  from st m len(1) rows(1,2,3) r0 r1 r2 init_db_primary_key show ?thesis
    by (intro exI [of _ s'] exI [of _ cs] conjI)
qed


section \<open>The payments listing\<close>

lemma ListPayments_loop_None: "ListPayments_loop None i rows ps = Inr (ps @ rows)"
  by (induction rows arbitrary: i ps) (auto simp: Scan_def Payment_eta)

lemma ListPayments_loop_cases:
  "ListPayments_loop sf i rows ps = Inr (ps @ rows) \<or> (\<exists>e. ListPayments_loop sf i rows ps = Inl e)"
proof (induction rows arbitrary: i ps)
  case Nil
  then show ?case by simp
next
  case (Cons row rows)
  show ?case
    using Cons.IH [of "Suc i" "ps @ [row]"]
    by (cases "Scan sf i") (auto simp: Payment_eta)
qed

text \<open>
  Whichever calls fail: a listing that \<^verbatim>\<open>ListPayments\<close> returns with a nil error is the
  rows that the query delivered.
\<close>

lemma ListPayments_nil_error:
  assumes "ListPayments flt s = (listing, None)"
  shows "listing = delivered (open_rows (rows_err flt) (sort_key Payment.ID (payments s)))"
  using assms
    ListPayments_loop_cases [of "scan_err flt" 0
      "delivered (open_rows (rows_err flt) (sort_key Payment.ID (payments s)))" "[]"]
  by (auto simp: ListPayments_def split: option.splits sum.splits)

lemma ListPayments_ok:
  "query_err flt = None \<Longrightarrow> scan_err flt = None \<Longrightarrow>
     ListPayments flt s =
       (delivered (open_rows (rows_err flt) (sort_key Payment.ID (payments s))), None)"
  by (simp add: ListPayments_def ListPayments_loop_None)

lemma sorted_delivered:
  "sorted (map Payment.ID (delivered (open_rows re (sort_key Payment.ID ps))))"
proof -
  obtain k where "delivered (open_rows re (sort_key Payment.ID ps)) = take k (sort_key Payment.ID ps)"
    using delivered_take by blast
  then have "map Payment.ID (delivered (open_rows re (sort_key Payment.ID ps)))
      = take k (map Payment.ID (sort_key Payment.ID ps))"
    by (simp add: take_map)
  then show ?thesis
    by (simp add: sorted_wrt_take)
qed

lemma length_delivered: "length (delivered (open_rows re xs)) \<le> length xs"
  using delivered_take [of re xs] by auto

lemma items_fold:
  "fold (\<lambda>payment items. items @ [f payment, g payment]) pays acc
     = acc @ concat (map (\<lambda>p. [f p, g p]) pays)"
  by (induction pays arbitrary: acc) auto

lemma endpoint_items:
  "svc ctx = (pays, err) \<Longrightarrow>
   makeListPaymentsEndpoint svc ctx =
     (\<lparr>Payments = concat (map (\<lambda>p.
          [\<lparr>paymentItem.Account = FromAccountID p, paymentItem.Amount = Payment.Amount p,
            FromAccount = [], ToAccount = ToAccountID p, Direction = ''outgoing''\<rparr>,
           \<lparr>paymentItem.Account = ToAccountID p, paymentItem.Amount = Payment.Amount p,
            FromAccount = FromAccountID p, ToAccount = [], Direction = ''incoming''\<rparr>]) pays),
       Err = err\<rparr>, None)"
  by (simp add: makeListPaymentsEndpoint_def items_fold)

lemma concat_pairs_length: "length (concat (map (\<lambda>p. [f p, g p]) xs)) = 2 * length xs"
  by (induction xs) auto

lemma concat_pairs_nth:
  "i < length xs \<Longrightarrow>
     concat (map (\<lambda>p. [f p, g p]) xs) ! (2 * i) = f (xs ! i)
   \<and> concat (map (\<lambda>p. [f p, g p]) xs) ! (2 * i + 1) = g (xs ! i)"
proof (induction xs arbitrary: i)
  case Nil
  then show ?case by simp
next
  case (Cons x xs)
  show ?case
  proof (cases i)
    case 0
    then show ?thesis by simp
  next
    case (Suc j)
    with Cons.prems have "j < length xs" by simp
    from Cons.IH [OF this] Suc show ?thesis by simp
  qed
qed

lemma sorted_wrt_less_sort_key:
  "sorted_wrt (<) (map Payment.ID ps) \<Longrightarrow> sort_key Payment.ID ps = ps"
  by (induction ps) (auto simp: insort_is_Cons less_imp_le)

lemma tx_seq_mono:
  "SendPayment_tx flt \<lparr>committed = s, pending = s, closed = False, calls = [CallBegin]\<rparr> src dst amount = (r, t)
     \<Longrightarrow> payments_id_seq s \<le> payments_id_seq (committed t)"
  unfolding SendPayment_tx_def QueryForUpdate_def ExecUpdateBalance_def ExecInsertPayment_def Commit_def
  by (auto simp: Let_def split: option.splits sum.splits if_splits prod.splits)

lemma SendPayment_seq_mono:
  assumes "SendPayment flt s src dst amount = (r, s', cs)"
  shows "payments_id_seq s \<le> payments_id_seq s'"
proof (cases "src = [] \<or> dst = [] \<or> src = dst \<or> \<not> IsPositive amount \<or> begin_err flt \<noteq> None")
  case True
  with assms show ?thesis
    by (auto simp: SendPayment_def Begin_def split: if_splits)
next
  case False
  let ?t0 = "\<lparr>committed = s, pending = s, closed = False, calls = [CallBegin]\<rparr>"
  obtain r' t where rt: "SendPayment_tx flt ?t0 src dst amount = (r', t)"
    by (cases "SendPayment_tx flt ?t0 src dst amount")
  with False assms have "s' = committed t"
    by (auto simp: SendPayment_def Begin_def committed_Rollback)
  with tx_seq_mono [OF rt] show ?thesis by simp
qed

lemma SendPayment_ids_ascending:
  assumes asc: "ids_ascending s" and st: "SendPayment flt s src dst amount = (r, s', cs)"
  shows "ids_ascending s'"
proof (cases r)
  case (Some e)
  with st have "payments s' = payments s" by (simp add: SendPayment_failure)
  with asc SendPayment_seq_mono [OF st] show ?thesis
    by (fastforce simp: ids_ascending_def)
next
  case None
  from SendPayment_success [OF st [unfolded None]] have
    p: "payments s' = payments s @
                 [\<lparr>Payment.ID = payments_id_seq s + 1, FromAccountID = src,
                   ToAccountID = dst, Payment.Amount = amount\<rparr>]"
    and q: "payments_id_seq s' = payments_id_seq s + 1"
    by auto
  from asc show ?thesis
    unfolding ids_ascending_def p q
    by (fastforce simp: sorted_wrt_append)
qed

lemma run_ids_ascending: "ids_ascending s \<Longrightarrow> ids_ascending (run s reqs)"
proof (induction reqs arbitrary: s)
  case Nil
  then show ?case by simp
next
  case (Cons q reqs)
  obtain flt src dst amount where q: "q = (flt, src, dst, amount)"
    by (cases q) auto
  obtain r s' cs where st: "SendPayment flt s src dst amount = (r, s', cs)"
    by (cases "SendPayment flt s src dst amount") auto
  from SendPayment_ids_ascending [OF Cons.prems st] have "ids_ascending s'" .
  from Cons.IH [OF this] q st show ?case by simp
qed


lemma filter_pairs_first:
  "(\<And>p. P (f p)) \<Longrightarrow> (\<And>p. \<not> P (g p)) \<Longrightarrow>
     filter P (concat (map (\<lambda>p. [f p, g p]) xs)) = map f xs"
  by (induction xs) auto

lemma filter_pairs_second:
  "(\<And>p. \<not> P (f p)) \<Longrightarrow> (\<And>p. P (g p)) \<Longrightarrow>
     filter P (concat (map (\<lambda>p. [f p, g p]) xs)) = map g xs"
  by (induction xs) auto

lemma run_two_payments:
  "run init_db [(no_faults, ''bob123'', ''alice456'', 10), (no_faults, ''bob123'', ''alice456'', 1 / 2)]
     = two_payments_db"
  by (simp add: run_defs two_payments_db_def)

lemma SendPayment_record_ids:
  assumes named: "\<forall>p \<in> set (payments s). FromAccountID p \<noteq> [] \<and> ToAccountID p \<noteq> []"
      and st: "SendPayment flt s src dst amount = (r, s', cs)"
  shows "\<forall>p \<in> set (payments s'). FromAccountID p \<noteq> [] \<and> ToAccountID p \<noteq> []"
proof (cases r)
  case (Some e)
  with st have "payments s' = payments s" by (simp add: SendPayment_failure)
  with named show ?thesis by simp
next
  case None
  from SendPayment_success [OF st [unfolded None]] have "src \<noteq> []" "dst \<noteq> []"
    and "payments s' = payments s @
                 [\<lparr>Payment.ID = payments_id_seq s + 1, FromAccountID = src,
                   ToAccountID = dst, Payment.Amount = amount\<rparr>]"
    by auto
  with named show ?thesis by auto
qed

lemma run_record_ids:
  "\<forall>p \<in> set (payments s). FromAccountID p \<noteq> [] \<and> ToAccountID p \<noteq> [] \<Longrightarrow>
     \<forall>p \<in> set (payments (run s reqs)). FromAccountID p \<noteq> [] \<and> ToAccountID p \<noteq> []"
proof (induction reqs arbitrary: s)
  case Nil
  then show ?case by simp
next
  case (Cons q reqs)
  obtain flt src dst amount where q: "q = (flt, src, dst, amount)"
    by (cases q) auto
  obtain r s' cs where st: "SendPayment flt s src dst amount = (r, s', cs)"
    by (cases "SendPayment flt s src dst amount") auto
  from SendPayment_record_ids [OF Cons.prems st]
  have "\<forall>p \<in> set (payments s'). FromAccountID p \<noteq> [] \<and> ToAccountID p \<noteq> []" .
  from Cons.IH [OF this] q st show ?case by simp
qed

lemma no_payments_ascending: "payments s = [] \<Longrightarrow> ids_ascending s"
  by (simp add: ids_ascending_def)

text \<open>
  When the query delivers all its rows, a listing that \<^verbatim>\<open>ListPayments\<close> returns with a
  nil error is the records of the payments table, all of them and each once, in the order
  of their identifiers; where the identifiers were given by the sequence, as in every
  store that \<^verbatim>\<open>SendPayment\<close> calls have filled from an empty payments table, that is the
  order in which the records were appended, the order of the commits. The view of the
  endpoint has twice as many entries as there are records: its outgoing entries are,
  record by record, the source account and the amount, its incoming entries the
  destination account and the amount, and it has no other entry.
\<close>

lemma payments_view_complete_read:
  assumes complete: "rows_err flt = None" and ok: "ListPayments flt s = (listing, None)"
  shows "\<exists>resp.
           makeListPaymentsEndpoint (ListPayments flt) s = (resp, None) \<and> Err resp = None
         \<and> mset listing = mset (payments s) \<and> sorted (map Payment.ID listing)
         \<and> (ids_ascending s \<longrightarrow> listing = payments s)
         \<and> (\<forall>s0 reqs. payments s0 = [] \<and> s = run s0 reqs \<longrightarrow> listing = payments s)
         \<and> length (Payments resp) = 2 * length (payments s)
         \<and> map (\<lambda>it. (paymentItem.Account it, paymentItem.Amount it))
              (filter (\<lambda>it. Direction it = ''outgoing'') (Payments resp))
             = map (\<lambda>p. (FromAccountID p, Payment.Amount p)) listing
         \<and> map (\<lambda>it. (paymentItem.Account it, paymentItem.Amount it))
              (filter (\<lambda>it. Direction it = ''incoming'') (Payments resp))
             = map (\<lambda>p. (ToAccountID p, Payment.Amount p)) listing
         \<and> (\<forall>it \<in> set (Payments resp). Direction it = ''outgoing'' \<or> Direction it = ''incoming'')"
proof -
  let ?listing = "sort_key Payment.ID (payments s)"
  let ?out = "\<lambda>p. \<lparr>paymentItem.Account = FromAccountID p, paymentItem.Amount = Payment.Amount p,
            FromAccount = [], ToAccount = ToAccountID p, Direction = ''outgoing''\<rparr>"
  let ?inc = "\<lambda>p. \<lparr>paymentItem.Account = ToAccountID p, paymentItem.Amount = Payment.Amount p,
            FromAccount = FromAccountID p, ToAccount = [], Direction = ''incoming''\<rparr>"
  let ?items = "concat (map (\<lambda>p. [?out p, ?inc p]) ?listing)"
  from ListPayments_nil_error [OF ok] complete have listing: "listing = ?listing"
    by (simp add: delivered_complete)
  with ok have l: "ListPayments flt s = (?listing, None)"
    by simp
  then have e: "makeListPaymentsEndpoint (ListPayments flt) s = (\<lparr>Payments = ?items, Err = None\<rparr>, None)"
    by (rule endpoint_items)
  have len: "length ?items = 2 * length (payments s)"
    by (simp add: concat_pairs_length)
  have out: "filter (\<lambda>it. Direction it = ''outgoing'') ?items = map ?out ?listing"
    by (rule filter_pairs_first) simp_all
  have inc: "filter (\<lambda>it. Direction it = ''incoming'') ?items = map ?inc ?listing"
    by (rule filter_pairs_second) simp_all
  have dirs: "\<forall>it \<in> set ?items. Direction it = ''outgoing'' \<or> Direction it = ''incoming''"
    by auto
  have asc: "ids_ascending s \<longrightarrow> ?listing = payments s"
    by (simp add: ids_ascending_def sorted_wrt_less_sort_key)
  have reach: "\<forall>s0 reqs. payments s0 = [] \<and> s = run s0 reqs \<longrightarrow> ?listing = payments s"
    using asc run_ids_ascending no_payments_ascending by blast
  have "mset ?listing = mset (payments s)" "sorted (map Payment.ID ?listing)"
    by simp_all
  with e len asc reach dirs show ?thesis
    unfolding listing out inc
    by (intro exI [of _ "\<lparr>Payments = ?items, Err = None\<rparr>"])
       (simp add: out inc o_def)
qed

text \<open>
  C7. The claim: for a store that holds N payment records the payments view has exactly
  2N entries, an outgoing and an incoming one for each record. The code has it so whenever
  the query delivers all its rows (\<open>payments_view_complete_read\<close>). But \<^verbatim>\<open>ListPayments\<close>
  does not read \<^verbatim>\<open>rows.Err()\<close> after its loop: when the query fails while its rows are
  read, it returns the rows read so far and a nil error, and the endpoint answers with
  the view of these rows as a success. Below the store holds two records and the query
  fails after the first row: the listing has one record, the response has no error and
  two entries, where the same call has four when the rows arrive.
\<close>

theorem C7_truncated_listing:
  "length (payments two_payments_db) = 2
   \<and> ListPayments (no_faults\<lparr>rows_err := Some (1, ''unexpected EOF'')\<rparr>) two_payments_db
       = ([\<lparr>Payment.ID = 1, FromAccountID = ''bob123'', ToAccountID = ''alice456'',
            Payment.Amount = 10\<rparr>], None)
   \<and> makeListPaymentsEndpoint (ListPayments (no_faults\<lparr>rows_err := Some (1, ''unexpected EOF'')\<rparr>))
         two_payments_db
       = (\<lparr>Payments =
             [\<lparr>paymentItem.Account = ''bob123'', paymentItem.Amount = 10, FromAccount = [],
               ToAccount = ''alice456'', Direction = ''outgoing''\<rparr>,
              \<lparr>paymentItem.Account = ''alice456'', paymentItem.Amount = 10,
               FromAccount = ''bob123'', ToAccount = [], Direction = ''incoming''\<rparr>],
            Err = None\<rparr>, None)
   \<and> length (Payments (fst (makeListPaymentsEndpoint (ListPayments no_faults) two_payments_db))) = 4
   \<and> Err (fst (makeListPaymentsEndpoint (ListPayments no_faults) two_payments_db)) = None"
proof -
  have cut: "ListPayments (no_faults\<lparr>rows_err := Some (1, ''unexpected EOF'')\<rparr>) two_payments_db
       = ([\<lparr>Payment.ID = 1, FromAccountID = ''bob123'', ToAccountID = ''alice456'',
            Payment.Amount = 10\<rparr>], None)"
    by (simp add: ListPayments_def open_rows_def Scan_def no_faults_def two_payments_db_def)
  have whole: "ListPayments no_faults two_payments_db = (payments two_payments_db, None)"
    by (simp add: ListPayments_def open_rows_def Scan_def no_faults_def two_payments_db_def)
  have two: "length (payments two_payments_db) = 2"
    by (simp add: two_payments_db_def)
  note e_cut = endpoint_items [of "ListPayments (no_faults\<lparr>rows_err := Some (1, ''unexpected EOF'')\<rparr>)"
      two_payments_db, OF cut]
  note e_whole = endpoint_items [of "ListPayments no_faults" two_payments_db, OF whole]
  have e1: "makeListPaymentsEndpoint (ListPayments (no_faults\<lparr>rows_err := Some (1, ''unexpected EOF'')\<rparr>))
         two_payments_db
       = (\<lparr>Payments =
             [\<lparr>paymentItem.Account = ''bob123'', paymentItem.Amount = 10, FromAccount = [],
               ToAccount = ''alice456'', Direction = ''outgoing''\<rparr>,
              \<lparr>paymentItem.Account = ''alice456'', paymentItem.Amount = 10,
               FromAccount = ''bob123'', ToAccount = [], Direction = ''incoming''\<rparr>],
            Err = None\<rparr>, None)"
    using e_cut by simp
  have e2: "length (Payments (fst (makeListPaymentsEndpoint (ListPayments no_faults) two_payments_db))) = 4"
    using two by (simp add: e_whole concat_pairs_length)
  have e3: "Err (fst (makeListPaymentsEndpoint (ListPayments no_faults) two_payments_db)) = None"
    by (simp add: e_whole)
  show ?thesis
    by (intro conjI two cut e1 e2 e3)
qed

text \<open>
  C10. In the response of the endpoint the record at position \<open>i\<close> of the listing gives
  the entry at position \<open>2 * i\<close>, outgoing, and the entry at position \<open>2 * i + 1\<close>,
  incoming. The outgoing entry has the destination in \<^verbatim>\<open>ToAccount\<close> and nothing in
  \<^verbatim>\<open>FromAccount\<close>, so its JSON object never has the member \<^verbatim>\<open>from_account\<close> and has the
  member \<^verbatim>\<open>to_account\<close>; the incoming entry the other way round. The tag
  \<^verbatim>\<open>omitempty\<close> leaves out an empty string, so the member that is carried is there for
  a non-empty identifier: every record has one in a store that \<^verbatim>\<open>SendPayment\<close> calls
  have filled from an empty payments table.
\<close>

theorem C10_entry_positions:
  assumes nf: "query_err flt = None" "scan_err flt = None"
  shows "\<exists>listing resp.
           ListPayments flt s = (listing, None)
         \<and> makeListPaymentsEndpoint (ListPayments flt) s = (resp, None)
         \<and> sorted (map Payment.ID listing) \<and> length listing \<le> length (payments s)
         \<and> (rows_err flt = None \<longrightarrow> length listing = length (payments s))
         \<and> (\<forall>s0 reqs. payments s0 = [] \<and> s = run s0 reqs \<longrightarrow>
               (\<forall>p \<in> set listing. FromAccountID p \<noteq> [] \<and> ToAccountID p \<noteq> []))
         \<and> (\<forall>i < length listing.
               Payments resp ! (2 * i) =
                 \<lparr>paymentItem.Account = FromAccountID (listing ! i),
                  paymentItem.Amount = Payment.Amount (listing ! i),
                  FromAccount = [], ToAccount = ToAccountID (listing ! i),
                  Direction = ''outgoing''\<rparr>
             \<and> Payments resp ! (2 * i + 1) =
                 \<lparr>paymentItem.Account = ToAccountID (listing ! i),
                  paymentItem.Amount = Payment.Amount (listing ! i),
                  FromAccount = FromAccountID (listing ! i), ToAccount = [],
                  Direction = ''incoming''\<rparr>
             \<and> ''from_account'' \<notin> fst ` set (paymentItem_json (Payments resp ! (2 * i)))
             \<and> ''to_account'' \<notin> fst ` set (paymentItem_json (Payments resp ! (2 * i + 1)))
             \<and> (ToAccountID (listing ! i) \<noteq> [] \<longrightarrow>
                  paymentItem_json (Payments resp ! (2 * i)) =
                    [(''account'', JString (FromAccountID (listing ! i))),
                     (''amount'', JDecimal (Payment.Amount (listing ! i))),
                     (''to_account'', JString (ToAccountID (listing ! i))),
                     (''direction'', JString ''outgoing'')])
             \<and> (FromAccountID (listing ! i) \<noteq> [] \<longrightarrow>
                  paymentItem_json (Payments resp ! (2 * i + 1)) =
                    [(''account'', JString (ToAccountID (listing ! i))),
                     (''amount'', JDecimal (Payment.Amount (listing ! i))),
                     (''from_account'', JString (FromAccountID (listing ! i))),
                     (''direction'', JString ''incoming'')]))"
proof -
  let ?listing = "delivered (open_rows (rows_err flt) (sort_key Payment.ID (payments s)))"
  let ?out = "\<lambda>p. \<lparr>paymentItem.Account = FromAccountID p, paymentItem.Amount = Payment.Amount p,
            FromAccount = [], ToAccount = ToAccountID p, Direction = ''outgoing''\<rparr>"
  let ?inc = "\<lambda>p. \<lparr>paymentItem.Account = ToAccountID p, paymentItem.Amount = Payment.Amount p,
            FromAccount = FromAccountID p, ToAccount = [], Direction = ''incoming''\<rparr>"
  let ?items = "concat (map (\<lambda>p. [?out p, ?inc p]) ?listing)"
  from nf have l: "ListPayments flt s = (?listing, None)"
    by (rule ListPayments_ok)
  then have e: "makeListPaymentsEndpoint (ListPayments flt) s = (\<lparr>Payments = ?items, Err = None\<rparr>, None)"
    by (rule endpoint_items)
  have pos: "?items ! (2 * i) = ?out (?listing ! i) \<and> ?items ! (2 * i + 1) = ?inc (?listing ! i)"
    if "i < length ?listing" for i
    using that by (rule concat_pairs_nth)
  have body: "\<forall>i < length ?listing.
               ?items ! (2 * i) = ?out (?listing ! i)
             \<and> ?items ! (2 * i + 1) = ?inc (?listing ! i)
             \<and> ''from_account'' \<notin> fst ` set (paymentItem_json (?items ! (2 * i)))
             \<and> ''to_account'' \<notin> fst ` set (paymentItem_json (?items ! (2 * i + 1)))
             \<and> (ToAccountID (?listing ! i) \<noteq> [] \<longrightarrow>
                  paymentItem_json (?items ! (2 * i)) =
                    [(''account'', JString (FromAccountID (?listing ! i))),
                     (''amount'', JDecimal (Payment.Amount (?listing ! i))),
                     (''to_account'', JString (ToAccountID (?listing ! i))),
                     (''direction'', JString ''outgoing'')])
             \<and> (FromAccountID (?listing ! i) \<noteq> [] \<longrightarrow>
                  paymentItem_json (?items ! (2 * i + 1)) =
                    [(''account'', JString (ToAccountID (?listing ! i))),
                     (''amount'', JDecimal (Payment.Amount (?listing ! i))),
                     (''from_account'', JString (FromAccountID (?listing ! i))),
                     (''direction'', JString ''incoming'')])"
  proof (intro allI impI)
    fix i assume "i < length ?listing"
    from pos [OF this] show "?items ! (2 * i) = ?out (?listing ! i)
             \<and> ?items ! (2 * i + 1) = ?inc (?listing ! i)
             \<and> ''from_account'' \<notin> fst ` set (paymentItem_json (?items ! (2 * i)))
             \<and> ''to_account'' \<notin> fst ` set (paymentItem_json (?items ! (2 * i + 1)))
             \<and> (ToAccountID (?listing ! i) \<noteq> [] \<longrightarrow>
                  paymentItem_json (?items ! (2 * i)) =
                    [(''account'', JString (FromAccountID (?listing ! i))),
                     (''amount'', JDecimal (Payment.Amount (?listing ! i))),
                     (''to_account'', JString (ToAccountID (?listing ! i))),
                     (''direction'', JString ''outgoing'')])
             \<and> (FromAccountID (?listing ! i) \<noteq> [] \<longrightarrow>
                  paymentItem_json (?items ! (2 * i + 1)) =
                    [(''account'', JString (ToAccountID (?listing ! i))),
                     (''amount'', JDecimal (Payment.Amount (?listing ! i))),
                     (''from_account'', JString (FromAccountID (?listing ! i))),
                     (''direction'', JString ''incoming'')])"
      by (simp add: paymentItem_json_def)
  qed
  have s1: "sorted (map Payment.ID ?listing)"
    by (rule sorted_delivered)
  have s2: "length ?listing \<le> length (payments s)"
    using length_delivered [of "rows_err flt" "sort_key Payment.ID (payments s)"] by simp
  have s3: "rows_err flt = None \<longrightarrow> length ?listing = length (payments s)"
    by (simp add: delivered_complete)
  have sub: "set ?listing \<subseteq> set (payments s)"
    using delivered_subset [of "rows_err flt" "sort_key Payment.ID (payments s)"] by simp
  have named: "\<forall>s0 reqs. payments s0 = [] \<and> s = run s0 reqs \<longrightarrow>
               (\<forall>p \<in> set ?listing. FromAccountID p \<noteq> [] \<and> ToAccountID p \<noteq> [])"
  proof (intro allI impI)
    fix s0 :: db and reqs
    assume h: "payments s0 = [] \<and> s = run s0 reqs"
    then have "\<forall>p \<in> set (payments s0). FromAccountID p \<noteq> [] \<and> ToAccountID p \<noteq> []"
      by simp
    from run_record_ids [OF this, of reqs] h sub
    show "\<forall>p \<in> set ?listing. FromAccountID p \<noteq> [] \<and> ToAccountID p \<noteq> []"
      by blast
  qed
  have sel: "Payments \<lparr>Payments = ?items, Err = None\<rparr> = ?items" by simp
  show ?thesis
    by (rule exI [of _ ?listing], rule exI [of _ "\<lparr>Payments = ?items, Err = None\<rparr>"], unfold sel)
       (intro conjI l e s1 s2 s3 named body)
qed

theorem C10_entry_positions_witness:
  "query_err no_faults = None \<and> scan_err no_faults = None
   \<and> (\<exists>resp. makeListPaymentsEndpoint (ListPayments no_faults) two_payments_db = (resp, None)
        \<and> (1::nat) < length (payments two_payments_db)
        \<and> ToAccountID (payments two_payments_db ! 1) \<noteq> []
        \<and> FromAccountID (payments two_payments_db ! 1) \<noteq> []
        \<and> paymentItem_json (Payments resp ! 2) =
             [(''account'', JString ''bob123''), (''amount'', JDecimal (1 / 2)),
              (''to_account'', JString ''alice456''), (''direction'', JString ''outgoing'')]
        \<and> paymentItem_json (Payments resp ! 3) =
             [(''account'', JString ''alice456''), (''amount'', JDecimal (1 / 2)),
              (''from_account'', JString ''bob123''), (''direction'', JString ''incoming'')])"
proof -
  have nf: "query_err no_faults = None" "scan_err no_faults = None"
    by (simp_all add: no_faults_def)
  have lp: "ListPayments no_faults two_payments_db = (payments two_payments_db, None)"
    by (simp add: ListPayments_def open_rows_def Scan_def no_faults_def two_payments_db_def)
  have rows: "(1::nat) < length (payments two_payments_db)"
    "payments two_payments_db ! 1 =
       \<lparr>Payment.ID = 2, FromAccountID = ''bob123'', ToAccountID = ''alice456'', Payment.Amount = 1 / 2\<rparr>"
    by (simp_all add: two_payments_db_def)
  from C10_entry_positions [OF nf, of two_payments_db] lp obtain resp where
    e: "makeListPaymentsEndpoint (ListPayments no_faults) two_payments_db = (resp, None)"
    and all: "\<forall>i < length (payments two_payments_db).
             (ToAccountID (payments two_payments_db ! i) \<noteq> [] \<longrightarrow>
                  paymentItem_json (Payments resp ! (2 * i)) =
                    [(''account'', JString (FromAccountID (payments two_payments_db ! i))),
                     (''amount'', JDecimal (Payment.Amount (payments two_payments_db ! i))),
                     (''to_account'', JString (ToAccountID (payments two_payments_db ! i))),
                     (''direction'', JString ''outgoing'')])
             \<and> (FromAccountID (payments two_payments_db ! i) \<noteq> [] \<longrightarrow>
                  paymentItem_json (Payments resp ! (2 * i + 1)) =
                    [(''account'', JString (ToAccountID (payments two_payments_db ! i))),
                     (''amount'', JDecimal (Payment.Amount (payments two_payments_db ! i))),
                     (''from_account'', JString (FromAccountID (payments two_payments_db ! i))),
                     (''direction'', JString ''incoming'')])"
    by auto
  from all [THEN spec [where x = 1]] rows
  have "paymentItem_json (Payments resp ! 2) =
             [(''account'', JString ''bob123''), (''amount'', JDecimal (1 / 2)),
              (''to_account'', JString ''alice456''), (''direction'', JString ''outgoing'')]"
       "paymentItem_json (Payments resp ! 3) =
             [(''account'', JString ''alice456''), (''amount'', JDecimal (1 / 2)),
              (''from_account'', JString ''bob123''), (''direction'', JString ''incoming'')]"
    by simp_all
  with nf e rows show ?thesis
    by (intro conjI exI [of _ resp]) simp_all
qed

end
